theory Spec2Isabelle
  imports Complex_Main
begin

section \<open>Subscriptions, invoices and payment reconciliation\<close>

text \<open>
  A shallow embedding of \<^verbatim>\<open>src/common/subscriptions.js\<close>. The three tables the module
  queries are lists of rows in a \<open>state\<close> record, together with the two outgoing effects
  of the module: the e-mails handed to \<^verbatim>\<open>sendEmail\<close> and the activation commands handed
  to \<^verbatim>\<open>sendChiaRPCCommand\<close>. Everything the module reads from outside (the clock, the
  fresh uuid, the replies of the Chia node, whether an e-mail can be delivered, the
  application configuration) is a field of an \<open>env\<close> record.

  Conventions:
  \<^item> every function returns the way its promise ends together with the new state;
  \<^item> the storage layer is taken to answer every query (a failing \<^verbatim>\<open>dbQuery\<close> is not
    modelled), console output is not modelled;
  \<^item> JavaScript numbers are modelled exactly: base-unit amounts are naturals and
    display-unit amounts are rationals, so rounding of doubles is out of scope;
  \<^item> a \<^verbatim>\<open>Date\<close> is a valid local calendar date with the milliseconds since midnight.
\<close>

subsection \<open>Dates\<close>

record date =
  year :: int
  month :: nat
  day :: nat
  msec :: nat

text \<open>\<open>month\<close> counts from 0 as \<^verbatim>\<open>getMonth\<close> does, \<open>day\<close> from 1 as \<^verbatim>\<open>getDate\<close>.\<close>

definition is_leap :: "int \<Rightarrow> bool" where
  "is_leap y = (if y mod 400 = 0 then True else if y mod 100 = 0 then False else y mod 4 = 0)"

definition days_in_month :: "int \<Rightarrow> nat \<Rightarrow> nat" where
  "days_in_month y m =
     (if m = 1 then (if is_leap y then 29 else 28)
      else if m = 3 \<or> m = 5 \<or> m = 8 \<or> m = 10 then 30 else 31)"

text \<open>
  \<^verbatim>\<open>d.setFullYear(y)\<close> keeps month, day of month and time of day and rebuilds the date;
  a day of month that the new year does not have runs over into the next month, which for
  a valid date happens only on 29 February.
\<close>

definition setFullYear :: "int \<Rightarrow> date \<Rightarrow> date" where
  "setFullYear y d =
     (if month d = 1 \<and> day d = 29 \<and> is_leap y = False
      then d\<lparr>year := y, month := 2, day := 1\<rparr>
      else d\<lparr>year := y\<rparr>)"

definition next_day :: "date \<Rightarrow> date" where
  "next_day d =
     (if day d < days_in_month (year d) (month d) then d\<lparr>day := day d + 1\<rparr>
      else if month d < 11 then d\<lparr>month := month d + 1, day := 1\<rparr>
      else d\<lparr>year := year d + 1, month := 0, day := 1\<rparr>)"

text \<open>\<^verbatim>\<open>d.setDate(d.getDate() + n)\<close> for a natural \<open>n\<close>.\<close>

fun add_days :: "nat \<Rightarrow> date \<Rightarrow> date" where
  "add_days 0 d = d"
| "add_days (Suc n) d = add_days n (next_day d)"

definition date_le :: "date \<Rightarrow> date \<Rightarrow> bool" where
  "date_le a b =
     (year a < year b \<or> (year a = year b \<and>
       (month a < month b \<or> (month a = month b \<and>
         (day a < day b \<or> (day a = day b \<and> msec a \<le> msec b))))))"

subsection \<open>Rows\<close>

datatype sub_status = Pending_payment | Active | Grace_period | Terminated

datatype inv_status = Unpaid | Paid

text \<open>
  The \<^verbatim>\<open>data\<close> column of a subscription is the JSON text of
  \<^verbatim>\<open>{cmd, data: {userId, ...}}\<close>; it is kept parsed.
\<close>

record activation =
  cmd :: string
  params :: "(string \<times> string) list"

record subscription =
  sub_id :: nat
  sub_user_id :: nat
  product_key :: string
  start_date :: date
  end_date :: date
  sub_status :: sub_status
  sub_data :: activation

text \<open>\<open>amount_paid\<close> is \<open>None\<close> until the first update: the insert does not set it.\<close>

record invoice =
  guid :: string
  subscription_id :: "nat option"
  issue_date :: date
  due_date :: date
  total_amount_due :: rat
  amount_paid :: "rat option"
  xch_payment_address :: string
  inv_status :: inv_status

record payment =
  invoice_guid :: string
  coin_name :: string
  amount :: rat
  confirmed_at_height :: nat
  fee :: nat

record user =
  user_id :: nat
  email :: string

text \<open>A transaction as the Chia node lists it; \<open>tx_amount\<close> is in base units (mojos).\<close>

record transaction =
  tx_name :: string
  tx_amount :: nat
  tx_confirmed :: bool
  tx_confirmed_at_height :: nat
  tx_fee_amount :: nat

record product =
  cost :: rat

text \<open>The object \<^verbatim>\<open>createInvoice\<close> resolves with: it has \<^verbatim>\<open>id\<close> and \<^verbatim>\<open>amount\<close>, no \<^verbatim>\<open>guid\<close>.\<close>

record invoice_obj =
  obj_id :: string
  obj_subscription_id :: "nat option"
  obj_issue_date :: date
  obj_due_date :: date
  obj_amount :: rat
  obj_xch_payment_address :: string
  obj_status :: inv_status

subsection \<open>State, environment, outcomes\<close>

record state =
  subscriptions :: "subscription list"
  invoices :: "invoice list"
  payments :: "payment list"
  users :: "user list"
  outbox :: "(string \<times> string \<times> string) list"
  rpc_sent :: "(string \<times> nat \<times> (string \<times> string) list) list"

datatype 'a rpc_reply = Rpc_rejects | Rpc_no_result | Rpc_result 'a

record env =
  now :: date
  uuidv4 :: string
  new_payment_address :: "string rpc_reply"
  get_transactions :: "string \<Rightarrow> transaction list rpc_reply"
  activation_ok :: bool
  sendEmail_ok :: "string \<Rightarrow> bool"
  app_config :: "string \<Rightarrow> string option"

datatype error =
    Invoice_not_found
  | Subscription_not_found
  | Cannot_renew_terminated
  | Address_unavailable
  | Transactions_unavailable
  | Balance_unavailable
  | Rpc_failed
  | Email_failed
  | Type_error

text \<open>
  How the promise a function returns ends. The exported functions are written as
  \<^verbatim>\<open>new Promise(async (resolve, reject) => ...)\<close>: an exception thrown in the executor
  outside a \<^verbatim>\<open>try\<close> rejects only the executor's own promise, which nobody awaits, and the
  promise handed to the caller stays pending for ever. \<open>Unsettled e\<close> is that outcome, with
  the lost exception.
\<close>

datatype 'a promise = Resolved 'a | Rejected error | Unsettled error

subsection \<open>createInvoice\<close>

text \<open>A template literal prints a missing configuration key as \<^verbatim>\<open>undefined\<close>.\<close>

definition config_text :: "env \<Rightarrow> string \<Rightarrow> string" where
  "config_text e k = (case app_config e k of None \<Rightarrow> ''undefined'' | Some v \<Rightarrow> v)"

definition getUserBy_id :: "nat \<Rightarrow> state \<Rightarrow> user option" where
  "getUserBy_id userId st = find (\<lambda>u. user_id u = userId) (users st)"

text \<open>
  \<open>subscriptionId\<close> and \<open>product\<close> are options: a JavaScript caller may leave arguments
  out, and reading \<^verbatim>\<open>product.cost\<close> of \<^verbatim>\<open>undefined\<close> throws a TypeError. That read and
  the request for a payment address stand before the \<^verbatim>\<open>try\<close>.
\<close>

definition createInvoice ::
  "env \<Rightarrow> nat \<Rightarrow> nat option \<Rightarrow> product option \<Rightarrow> state \<Rightarrow> invoice_obj promise \<times> state" where
  "createInvoice e userId subscriptionId product st =
     (let issueDate = now e;
          dueDate = setFullYear (year issueDate + 1) issueDate
      in case product of
           None \<Rightarrow> (Unsettled Type_error, st)
         | Some p \<Rightarrow>
            (case new_payment_address e of
               Rpc_rejects \<Rightarrow> (Unsettled Rpc_failed, st)
             | Rpc_no_result \<Rightarrow> (Unsettled Address_unavailable, st)
             | Rpc_result xchPaymentAddress \<Rightarrow>
                if xchPaymentAddress = [] then (Unsettled Address_unavailable, st)
                else
                  let invoiceId = uuidv4 e;
                      st1 = st\<lparr>invoices := invoices st @
                              [\<lparr>guid = invoiceId, subscription_id = subscriptionId,
                                issue_date = issueDate, due_date = dueDate,
                                total_amount_due = cost p, amount_paid = None,
                                xch_payment_address = xchPaymentAddress,
                                inv_status = Unpaid\<rparr>]\<rparr>
                  in (case getUserBy_id userId st1 of
                        None \<Rightarrow> (Rejected Type_error, st1)
                      | Some u \<Rightarrow>
                         let invoiceUrl = ''https://app.'' @ config_text e ''SERVICE_DOMAIN''
                                           @ ''/invoices/'' @ invoiceId
                         in if sendEmail_ok e (email u)
                            then (Resolved \<lparr>obj_id = invoiceId,
                                    obj_subscription_id = subscriptionId,
                                    obj_issue_date = issueDate, obj_due_date = dueDate,
                                    obj_amount = cost p,
                                    obj_xch_payment_address = xchPaymentAddress,
                                    obj_status = Unpaid\<rparr>,
                                  st1\<lparr>outbox := outbox st1 @
                                    [(email u, ''Your Invoice'',
                                      ''Please pay the invoice at '' @ invoiceUrl
                                        @ '' to activate or renew your subscription.'')]\<rparr>)
                            else (Rejected Email_failed, st1))))"

subsection \<open>insertTransactionsAndCalculateSum\<close>

definition to_xch :: "nat \<Rightarrow> rat" where
  "to_xch a = of_nat a / 1000000000000"

definition payment_key :: "payment \<Rightarrow> string \<times> string" where
  "payment_key p = (invoice_guid p, coin_name p)"

text \<open>
  Modelled from the spec: the declaration of the \<^verbatim>\<open>payments\<close> table is not part of the
  sources; the spec gives it a unique key on \<^verbatim>\<open>(invoice_guid, coin_name)\<close>. With that key
  \<^verbatim>\<open>INSERT IGNORE\<close> adds the row unless a row with the same key is there.
\<close>

definition insert_ignore :: "payment \<Rightarrow> payment list \<Rightarrow> payment list" where
  "insert_ignore p ps = (if payment_key p \<in> set (map payment_key ps) then ps else ps @ [p])"

definition payment_of :: "string \<Rightarrow> transaction \<Rightarrow> payment" where
  "payment_of invoiceId t =
     \<lparr>invoice_guid = invoiceId, coin_name = tx_name t, amount = to_xch (tx_amount t),
      confirmed_at_height = tx_confirmed_at_height t, fee = tx_fee_amount t\<rparr>"

text \<open>The \<^verbatim>\<open>for ... of\<close> loop, with \<open>confirmedSum\<close> and the table as its state.\<close>

fun insert_loop :: "transaction list \<Rightarrow> string \<Rightarrow> rat \<Rightarrow> payment list \<Rightarrow> rat \<times> payment list" where
  "insert_loop [] invoiceId confirmedSum ps = (confirmedSum, ps)"
| "insert_loop (t # ts) invoiceId confirmedSum ps =
     (if tx_confirmed t
      then insert_loop ts invoiceId (confirmedSum + to_xch (tx_amount t))
             (insert_ignore (payment_of invoiceId t) ps)
      else insert_loop ts invoiceId confirmedSum ps)"

definition insertTransactionsAndCalculateSum ::
  "transaction list \<Rightarrow> string \<Rightarrow> payment list \<Rightarrow> rat \<times> payment list" where
  "insertTransactionsAndCalculateSum transactions invoiceId ps =
     insert_loop transactions invoiceId 0 ps"

subsection \<open>confirmPayment\<close>

definition mark_paid :: "string \<Rightarrow> invoice \<Rightarrow> invoice" where
  "mark_paid g i = (if guid i = g then i\<lparr>inv_status := Paid\<rparr> else i)"

definition mark_active :: "nat \<Rightarrow> subscription \<Rightarrow> subscription" where
  "mark_active n s = (if sub_id s = n then s\<lparr>sub_status := Active\<rparr> else s)"

text \<open>The join of subscriptions with the invoices of the given guid.\<close>

definition subscriptions_of_invoice :: "string \<Rightarrow> state \<Rightarrow> subscription list" where
  "subscriptions_of_invoice g st =
     concat (map (\<lambda>s. map (\<lambda>i. s)
       (filter (\<lambda>i. guid i = g \<and> subscription_id i = Some (sub_id s)) (invoices st)))
       (subscriptions st))"

definition confirmPayment :: "env \<Rightarrow> string \<Rightarrow> state \<Rightarrow> nat promise \<times> state" where
  "confirmPayment e g st =
     (let affectedRows = length (filter (\<lambda>i. guid i = g) (invoices st));
          st1 = st\<lparr>invoices := map (mark_paid g) (invoices st)\<rparr>
      in if affectedRows = 0 then (Rejected Invoice_not_found, st1)
         else
           (case subscriptions_of_invoice g st1 of
              [] \<Rightarrow> (Rejected Subscription_not_found, st1)
            | subscription # rest \<Rightarrow>
               let st2 = st1\<lparr>subscriptions :=
                           map (mark_active (sub_id subscription)) (subscriptions st1)\<rparr>;
                   st3 = st2\<lparr>rpc_sent := rpc_sent st2 @
                           [(cmd (sub_data subscription), sub_id subscription,
                             params (sub_data subscription))]\<rparr>
               in if activation_ok e then (Resolved (sub_id subscription), st3)
                  else (Rejected Rpc_failed, st3)))"

subsection \<open>checkForPayment\<close>

definition set_amount_paid :: "string \<Rightarrow> rat \<Rightarrow> invoice \<Rightarrow> invoice" where
  "set_amount_paid g a i = (if guid i = g then i\<lparr>amount_paid := Some a\<rparr> else i)"

definition checkForPayment :: "env \<Rightarrow> string \<Rightarrow> state \<Rightarrow> invoice promise \<times> state" where
  "checkForPayment e invoiceId st =
     (case filter (\<lambda>i. guid i = invoiceId) (invoices st) of
        [] \<Rightarrow> (Rejected Invoice_not_found, st)
      | invoice # rest \<Rightarrow>
         if inv_status invoice = Paid then (Resolved invoice, st)
         else
           (case get_transactions e (xch_payment_address invoice) of
              Rpc_rejects \<Rightarrow> (Rejected Rpc_failed, st)
            | Rpc_no_result \<Rightarrow> (Rejected Transactions_unavailable, st)
            | Rpc_result addressTransactions \<Rightarrow>
               (case insertTransactionsAndCalculateSum addressTransactions invoiceId
                       (payments st) of
                  (totalXchPaid, ps) \<Rightarrow>
                    let st1 = st\<lparr>payments := ps\<rparr> in
                    if totalXchPaid = 0 then (Rejected Balance_unavailable, st1)
                    else
                      let st2 = st1\<lparr>invoices :=
                                  map (set_amount_paid invoiceId totalXchPaid) (invoices st1)\<rparr>
                      in if total_amount_due invoice \<le> totalXchPaid
                         then (case confirmPayment e invoiceId st2 of
                                 (Resolved n, st3) \<Rightarrow> (Resolved invoice, st3)
                               | (Rejected err, st3) \<Rightarrow> (Rejected err, st3)
                               | (Unsettled err, st3) \<Rightarrow> (Unsettled err, st3))
                         else (Resolved invoice, st2))))"

text \<open>A sequence of polls of one invoice, each with its own environment.\<close>

fun polls :: "env list \<Rightarrow> string \<Rightarrow> state \<Rightarrow> state" where
  "polls [] invoiceId st = st"
| "polls (e # es) invoiceId st = polls es invoiceId (snd (checkForPayment e invoiceId st))"

subsection \<open>checkSubscriptionsForExpiration\<close>

definition expiring :: "env \<Rightarrow> state \<Rightarrow> (subscription \<times> user) list" where
  "expiring e st =
     concat (map (\<lambda>s. map (\<lambda>u. (s, u)) (filter (\<lambda>u. sub_user_id s = user_id u) (users st)))
       (filter (\<lambda>s. sub_status s = Active \<and> date_le (now e) (end_date s)
                     \<and> date_le (end_date s) (add_days 15 (now e)))
          (subscriptions st)))"

text \<open>
  One callback of \<^verbatim>\<open>rows.map\<close>. It calls \<^verbatim>\<open>createInvoice(subscription.id)\<close>, with one
  argument, and reads \<^verbatim>\<open>invoice.guid\<close> and \<^verbatim>\<open>appConfig.serviceDomain\<close>. Its \<^verbatim>\<open>catch\<close>
  swallows a rejection.
\<close>

definition expiration_callback :: "env \<Rightarrow> subscription \<times> user \<Rightarrow> state \<Rightarrow> unit promise \<times> state" where
  "expiration_callback e row st =
     (case createInvoice e (sub_id (fst row)) None None st of
        (Resolved invoice, st1) \<Rightarrow>
          let invoiceUrl = ''https://app.'' @ config_text e ''serviceDomain''
                            @ ''/invoices/'' @ ''undefined''
          in if sendEmail_ok e (email (snd row))
             then (Resolved (),
                   st1\<lparr>outbox := outbox st1 @
                     [(email (snd row), ''Your Subscription Is Expiring Soon'',
                       ''Your subscription is expiring soon. Please pay the invoice at ''
                         @ invoiceUrl @ '' to renew your subscription.'')]\<rparr>)
             else (Resolved (), st1)
      | (Rejected err, st1) \<Rightarrow> (Resolved (), st1)
      | (Unsettled err, st1) \<Rightarrow> (Unsettled err, st1))"

text \<open>
  \<^verbatim>\<open>Promise.all\<close> over the callbacks, run one after the other: it resolves when all of
  them do and stays pending when one of them does.
\<close>

fun expiration_callbacks :: "env \<Rightarrow> (subscription \<times> user) list \<Rightarrow> state \<Rightarrow> unit promise \<times> state" where
  "expiration_callbacks e [] st = (Resolved (), st)"
| "expiration_callbacks e (row # rows) st =
     (case expiration_callback e row st of
        (p, st1) \<Rightarrow>
          (case expiration_callbacks e rows st1 of
             (q, st2) \<Rightarrow> ((case p of Resolved u \<Rightarrow> q | Rejected err \<Rightarrow> Rejected err
                                     | Unsettled err \<Rightarrow> Unsettled err), st2)))"

definition checkSubscriptionsForExpiration :: "env \<Rightarrow> state \<Rightarrow> unit promise \<times> state" where
  "checkSubscriptionsForExpiration e st = expiration_callbacks e (expiring e st) st"

subsection \<open>renewSubscription\<close>

definition set_end_date :: "nat \<Rightarrow> date \<Rightarrow> subscription \<Rightarrow> subscription" where
  "set_end_date n d s = (if sub_id s = n then s\<lparr>end_date := d\<rparr> else s)"

definition renewSubscription :: "nat \<Rightarrow> state \<Rightarrow> subscription promise \<times> state" where
  "renewSubscription subscriptionId st =
     (case filter (\<lambda>s. sub_id s = subscriptionId) (subscriptions st) of
        [] \<Rightarrow> (Rejected Subscription_not_found, st)
      | subscription # rest \<Rightarrow>
         if sub_status subscription = Terminated then (Rejected Cannot_renew_terminated, st)
         else
           let newEndDate = setFullYear (year (end_date subscription) + 1)
                              (end_date subscription)
           in (Resolved (subscription\<lparr>end_date := newEndDate\<rparr>),
               st\<lparr>subscriptions :=
                    map (set_end_date subscriptionId newEndDate) (subscriptions st)\<rparr>))"

subsection \<open>setSubscriptionsToGracePeriod\<close>

definition expired_today :: "env \<Rightarrow> state \<Rightarrow> (subscription \<times> user) list" where
  "expired_today e st =
     (let currentDate = (now e)\<lparr>msec := 0\<rparr>
      in concat (map (\<lambda>s. map (\<lambda>u. (s, u)) (filter (\<lambda>u. sub_user_id s = user_id u) (users st)))
           (filter (\<lambda>s. sub_status s = Active \<and> end_date s = currentDate)
              (subscriptions st))))"

definition mark_grace :: "nat list \<Rightarrow> subscription \<Rightarrow> subscription" where
  "mark_grace ids s = (if sub_id s \<in> set ids then s\<lparr>sub_status := Grace_period\<rparr> else s)"

text \<open>The e-mail callbacks: each has its own \<^verbatim>\<open>try\<close>, whose \<^verbatim>\<open>catch\<close> only logs.\<close>

fun grace_emails :: "env \<Rightarrow> (subscription \<times> user) list \<Rightarrow> state \<Rightarrow> state" where
  "grace_emails e [] st = st"
| "grace_emails e (row # rows) st =
     grace_emails e rows
       (if sendEmail_ok e (email (snd row))
        then st\<lparr>outbox := outbox st @
               [(email (snd row), ''Your Subscription Has Expired'',
                 ''Your subscription has expired. You have a grace period of 15 days to renew your subscription.'')]\<rparr>
        else st)"

definition setSubscriptionsToGracePeriod :: "env \<Rightarrow> state \<Rightarrow> nat promise \<times> state" where
  "setSubscriptionsToGracePeriod e st =
     (let rows = expired_today e st
      in if rows = [] then (Resolved 0, st)
         else
           let subscriptionIds = map (\<lambda>row. sub_id (fst row)) rows;
               affectedRows = length (filter (\<lambda>s. sub_id s \<in> set subscriptionIds)
                                        (subscriptions st));
               st1 = st\<lparr>subscriptions := map (mark_grace subscriptionIds) (subscriptions st)\<rparr>
           in (Resolved affectedRows, grace_emails e rows st1))"

subsection \<open>Quantities the properties speak about\<close>

text \<open>The display-unit amounts of the confirmed transactions of a list, summed.\<close>

definition confirmed_total :: "transaction list \<Rightarrow> rat" where
  "confirmed_total ts = sum_list (map (\<lambda>t. to_xch (tx_amount t)) (filter tx_confirmed ts))"

text \<open>The amounts of the payment rows recorded for an invoice, summed.\<close>

definition paid_total :: "string \<Rightarrow> payment list \<Rightarrow> rat" where
  "paid_total g ps = sum_list (map amount (filter (\<lambda>p. invoice_guid p = g) ps))"

text \<open>The payment rows with a given key.\<close>

definition rows_of_key :: "string \<Rightarrow> string \<Rightarrow> payment list \<Rightarrow> payment list" where
  "rows_of_key g c ps = filter (\<lambda>p. invoice_guid p = g \<and> coin_name p = c) ps"

text \<open>
  The reading of the specification, for comparison with \<open>checkForPayment\<close>: the
  transactions a call newly ingests are the confirmed ones whose insert adds a row, and the
  stored \<open>amount_paid\<close> is incremented by their sum.
\<close>

fun spec_newly_ingested :: "transaction list \<Rightarrow> string \<Rightarrow> payment list \<Rightarrow> transaction list" where
  "spec_newly_ingested [] g ps = []"
| "spec_newly_ingested (t # ts) g ps =
     (if tx_confirmed t
      then (if payment_key (payment_of g t) \<in> set (map payment_key ps)
            then spec_newly_ingested ts g ps
            else t # spec_newly_ingested ts g (ps @ [payment_of g t]))
      else spec_newly_ingested ts g ps)"

definition spec_amount_applied :: "transaction list \<Rightarrow> string \<Rightarrow> payment list \<Rightarrow> rat" where
  "spec_amount_applied ts g ps =
     sum_list (map (\<lambda>t. to_xch (tx_amount t)) (spec_newly_ingested ts g ps))"

definition spec_incremented :: "rat option \<Rightarrow> rat \<Rightarrow> rat option" where
  "spec_incremented old a = Some ((case old of None \<Rightarrow> 0 | Some x \<Rightarrow> x) + a)"

text \<open>The stored \<open>amount_paid\<close> as a number, the unset column read as 0.\<close>

definition amount_paid_value :: "invoice \<Rightarrow> rat" where
  "amount_paid_value i = (case amount_paid i of None \<Rightarrow> 0 | Some a \<Rightarrow> a)"

text \<open>The stored amount of every invoice of guid \<open>h\<close> is the sum of its payment rows.\<close>

definition amount_paid_ok :: "string \<Rightarrow> state \<Rightarrow> bool" where
  "amount_paid_ok h st =
     (\<forall>i\<in>set (invoices st). guid i = h \<longrightarrow> amount_paid_value i = paid_total h (payments st))"

text \<open>
  The list the node returns to a poll of \<open>g\<close> is the complete history of the invoice:
  its confirmed transactions have pairwise different names, and every row recorded for the
  invoice is the row of one of them. Nothing is asked of a poll that does not reach the
  node or gets no list.
\<close>

definition complete_history :: "env \<Rightarrow> string \<Rightarrow> state \<Rightarrow> bool" where
  "complete_history e g st =
     (case filter (\<lambda>i. guid i = g) (invoices st) of
        [] \<Rightarrow> True
      | iv # rest \<Rightarrow>
         if inv_status iv = Paid then True
         else
           (case get_transactions e (xch_payment_address iv) of
              Rpc_rejects \<Rightarrow> True
            | Rpc_no_result \<Rightarrow> True
            | Rpc_result ts \<Rightarrow>
               distinct (map tx_name (filter tx_confirmed ts))
               \<and> (\<forall>p\<in>set (payments st). invoice_guid p = g \<longrightarrow>
                     (\<exists>t\<in>set ts. tx_confirmed t \<and> tx_name t = coin_name p
                        \<and> to_xch (tx_amount t) = amount p))))"

text \<open>A sequence of calls of \<open>checkForPayment\<close>, each with its environment and its guid.\<close>

fun reconciliations :: "(env \<times> string) list \<Rightarrow> state \<Rightarrow> state" where
  "reconciliations [] st = st"
| "reconciliations ((e, g) # cs) st = reconciliations cs (snd (checkForPayment e g st))"

text \<open>Every call of the sequence gets a complete history, in the state it runs in.\<close>

fun complete_histories :: "(env \<times> string) list \<Rightarrow> state \<Rightarrow> bool" where
  "complete_histories [] st = True"
| "complete_histories ((e, g) # cs) st =
     (complete_history e g st \<and> complete_histories cs (snd (checkForPayment e g st)))"

subsection \<open>A small ledger to run the functions on\<close>

definition new_year_2024 :: date where
  "new_year_2024 = \<lparr>year = 2024, month = 0, day = 1, msec = 0\<rparr>"

definition alice :: user where
  "alice = \<lparr>user_id = 7, email = ''alice@example.org''\<rparr>"

definition sub_1 :: "sub_status \<Rightarrow> date \<Rightarrow> subscription" where
  "sub_1 s d =
     \<lparr>sub_id = 1, sub_user_id = 7, product_key = ''store'',
      start_date = \<lparr>year = 2023, month = 0, day = 1, msec = 0\<rparr>, end_date = d,
      sub_status = s,
      sub_data = \<lparr>cmd = ''CREATE_STORE'', params = [(''userId'', ''7'')]\<rparr>\<rparr>"

definition invoice_1 :: invoice where
  "invoice_1 =
     \<lparr>guid = ''inv-1'', subscription_id = Some 1, issue_date = new_year_2024,
      due_date = \<lparr>year = 2025, month = 0, day = 1, msec = 0\<rparr>, total_amount_due = 10,
      amount_paid = None, xch_payment_address = ''xch1addr'', inv_status = Unpaid\<rparr>"

definition ledger :: "subscription \<Rightarrow> invoice list \<Rightarrow> state" where
  "ledger s is =
     \<lparr>subscriptions = [s], invoices = is, payments = [], users = [alice], outbox = [],
      rpc_sent = []\<rparr>"

text \<open>An environment in which the node answers a transaction query with \<open>r\<close>.\<close>

definition node :: "transaction list rpc_reply \<Rightarrow> env" where
  "node r =
     \<lparr>now = new_year_2024, uuidv4 = ''inv-2'', new_payment_address = Rpc_result ''xch1new'',
      get_transactions = (\<lambda>a. r), activation_ok = True, sendEmail_ok = (\<lambda>a. True),
      app_config = (\<lambda>k. if k = ''SERVICE_DOMAIN'' then Some ''example.org'' else None)\<rparr>"

text \<open>A confirmed transaction of \<open>a\<close> XCH.\<close>

definition coin :: "string \<Rightarrow> nat \<Rightarrow> transaction" where
  "coin c a =
     \<lparr>tx_name = c, tx_amount = a * 1000000000000, tx_confirmed = True,
      tx_confirmed_at_height = 100, tx_fee_amount = 0\<rparr>"

text \<open>One pending subscription with its unpaid invoice of 10 XCH.\<close>

definition ledger_0 :: state where
  "ledger_0 = ledger (sub_1 Pending_payment new_year_2024) [invoice_1]"

text \<open>The same after a poll that saw the transaction \<open>a\<close> of 4 XCH.\<close>

definition ledger_1 :: state where
  "ledger_1 =
     ledger_0\<lparr>invoices := [invoice_1\<lparr>amount_paid := Some 4\<rparr>],
              payments := [payment_of ''inv-1'' (coin ''a'' 4)]\<rparr>"

text \<open>An active subscription that ends on 2024-01-10, nine days after \<open>now\<close>.\<close>

definition ledger_expiring :: state where
  "ledger_expiring =
     ledger (sub_1 Active \<lparr>year = 2024, month = 0, day = 10, msec = 0\<rparr>)
       [invoice_1\<lparr>inv_status := Paid\<rparr>]"

text \<open>An active subscription that ends today.\<close>

definition ledger_ending :: state where
  "ledger_ending = ledger (sub_1 Active new_year_2024) [invoice_1\<lparr>inv_status := Paid\<rparr>]"

text \<open>Environments in which no e-mail can be sent, and in which the node has no address.\<close>

definition mail_down :: env where
  "mail_down = (node (Rpc_result []))\<lparr>sendEmail_ok := (\<lambda>a. False)\<rparr>"

definition no_address :: env where
  "no_address = (node (Rpc_result []))\<lparr>new_payment_address := Rpc_no_result\<rparr>"

section \<open>Properties\<close>

subsection \<open>Polling an invoice that is already paid: two facts\<close>

lemma polls_paid_fixed:
  assumes "filter (\<lambda>i. guid i = g) (invoices st) = iv # rest"
    and "inv_status iv = Paid"
  shows "polls es g st = st"
  using assms by (induction es) (simp_all add: checkForPayment_def)

lemma confirmPayment_marks_paid:
  assumes "i \<in> set (invoices (snd (confirmPayment e g st)))" and "guid i = g"
  shows "inv_status i = Paid"
proof -
  have "invoices (snd (confirmPayment e g st)) = map (mark_paid g) (invoices st)"
    by (simp add: confirmPayment_def Let_def split: list.splits)
  then obtain x where "i = mark_paid g x"
    using assms(1) by auto
  then show ?thesis
    using assms(2) by (simp add: mark_paid_def split: if_splits)
qed

subsection \<open>Renewal\<close>

lemma renewSubscription_ok:
  assumes "filter (\<lambda>s. sub_id s = n) (subscriptions st) = sub # rest"
    and "sub_status sub \<noteq> Terminated"
  shows "renewSubscription n st =
     (Resolved (sub\<lparr>end_date := setFullYear (year (end_date sub) + 1) (end_date sub)\<rparr>),
      st\<lparr>subscriptions :=
           map (set_end_date n (setFullYear (year (end_date sub) + 1) (end_date sub)))
             (subscriptions st)\<rparr>)"
  using assms by (simp add: renewSubscription_def Let_def)

lemma set_end_date_frame: "(set_end_date n d' s)\<lparr>end_date := d\<rparr> = s\<lparr>end_date := d\<rparr>"
  by (simp add: set_end_date_def)

lemma set_end_date_status: "sub_status (set_end_date n d s) = sub_status s"
  by (simp add: set_end_date_def)

lemma set_end_date_other:
  "filter (\<lambda>s. sub_id s \<noteq> n) (map (set_end_date n d) xs) = filter (\<lambda>s. sub_id s \<noteq> n) xs"
  by (induction xs) (simp_all add: set_end_date_def)

lemma set_end_date_same:
  "map end_date (filter (\<lambda>s. sub_id s = n) (map (set_end_date n d) xs))
     = map (\<lambda>s. d) (filter (\<lambda>s. sub_id s = n) xs)"
  by (induction xs) (simp_all add: set_end_date_def)

text \<open>
  C8. For a subscription that exists and is not \<open>Terminated\<close> (so also in
  \<open>Grace_period\<close>), \<open>renewSubscription\<close> resolves with the loaded record whose end date is
  replaced by \<open>d\<close>, and stores \<open>d\<close> in every row of that id, where \<open>d\<close> is computed from the
  stored end date alone (the function does not read the clock): its year is the stored
  year plus one, its time of day is the stored one, and its month and day are the stored
  ones, except that \<^verbatim>\<open>setFullYear\<close> moves a 29 February to 1 March.
\<close>

theorem renewSubscription_end_date:
  assumes "filter (\<lambda>s. sub_id s = n) (subscriptions st) = sub # rest"
    and "sub_status sub \<noteq> Terminated"
  shows "\<exists>d st'. renewSubscription n st = (Resolved (sub\<lparr>end_date := d\<rparr>), st')
     \<and> map end_date (filter (\<lambda>s. sub_id s = n) (subscriptions st'))
         = map (\<lambda>s. d) (filter (\<lambda>s. sub_id s = n) (subscriptions st))
     \<and> d = setFullYear (year (end_date sub) + 1) (end_date sub)
     \<and> year d = year (end_date sub) + 1
     \<and> msec d = msec (end_date sub)
     \<and> (if month (end_date sub) = 1 \<and> day (end_date sub) = 29 then True
         else month d = month (end_date sub) \<and> day d = day (end_date sub))"
  unfolding renewSubscription_ok[OF assms]
  by (simp add: set_end_date_same setFullYear_def)

text \<open>The example of the specification: grace period, 2024-01-01 becomes 2025-01-01.\<close>

theorem renewSubscription_end_date_witness:
  "filter (\<lambda>s. sub_id s = 1) (subscriptions (ledger (sub_1 Grace_period new_year_2024) []))
     = [sub_1 Grace_period new_year_2024]
   \<and> sub_status (sub_1 Grace_period new_year_2024) \<noteq> Terminated
   \<and> renewSubscription 1 (ledger (sub_1 Grace_period new_year_2024) [])
      = (Resolved (sub_1 Grace_period \<lparr>year = 2025, month = 0, day = 1, msec = 0\<rparr>),
         ledger (sub_1 Grace_period \<lparr>year = 2025, month = 0, day = 1, msec = 0\<rparr>) [])"
proof -
  have h: "filter (\<lambda>s. sub_id s = 1)
      (subscriptions (ledger (sub_1 Grace_period new_year_2024) []))
      = sub_1 Grace_period new_year_2024 # []"
    by (simp add: ledger_def sub_1_def)
  have p: "sub_status (sub_1 Grace_period new_year_2024) \<noteq> Terminated"
    by (simp add: sub_1_def)
  from renewSubscription_end_date[OF h p]
  obtain d st' where
    r: "renewSubscription 1 (ledger (sub_1 Grace_period new_year_2024) [])
          = (Resolved ((sub_1 Grace_period new_year_2024)\<lparr>end_date := d\<rparr>), st')"
    and s: "map end_date (filter (\<lambda>s. sub_id s = 1) (subscriptions st'))
          = map (\<lambda>s. d)
              (filter (\<lambda>s. sub_id s = 1)
                 (subscriptions (ledger (sub_1 Grace_period new_year_2024) [])))"
    and d: "d = setFullYear (year (end_date (sub_1 Grace_period new_year_2024)) + 1)
                  (end_date (sub_1 Grace_period new_year_2024))"
    by blast
  have d': "d = \<lparr>year = 2025, month = 0, day = 1, msec = 0\<rparr>"
    unfolding d by (simp add: sub_1_def new_year_2024_def setFullYear_def)
  have st': "st' = ledger (sub_1 Grace_period \<lparr>year = 2025, month = 0, day = 1, msec = 0\<rparr>) []"
    using r[unfolded d'] by (simp add: renewSubscription_def ledger_def sub_1_def
        new_year_2024_def setFullYear_def set_end_date_def Let_def)
  show ?thesis
    using h p r unfolding d' st' by (simp add: sub_1_def)
qed

text \<open>
  C10. A successful \<open>renewSubscription\<close> changes nothing but end dates: the record it
  resolves with and every stored subscription agree with what was stored once the end
  date is masked (written here as overwriting it with an arbitrary \<open>d\<close>), so every status is
  as before; rows of other ids are untouched; and the rest of the state (invoices,
  payments, users, e-mails, commands) is as before.
\<close>

theorem renewSubscription_frame:
  assumes "filter (\<lambda>s. sub_id s = n) (subscriptions st) = sub # rest"
    and "sub_status sub \<noteq> Terminated"
  shows "\<exists>r st'. renewSubscription n st = (Resolved r, st')
     \<and> r\<lparr>end_date := d\<rparr> = sub\<lparr>end_date := d\<rparr>
     \<and> sub_status r = sub_status sub
     \<and> map (\<lambda>s. s\<lparr>end_date := d\<rparr>) (subscriptions st')
         = map (\<lambda>s. s\<lparr>end_date := d\<rparr>) (subscriptions st)
     \<and> map sub_status (subscriptions st') = map sub_status (subscriptions st)
     \<and> filter (\<lambda>s. sub_id s \<noteq> n) (subscriptions st')
         = filter (\<lambda>s. sub_id s \<noteq> n) (subscriptions st)
     \<and> st'\<lparr>subscriptions := subscriptions st\<rparr> = st"
  unfolding renewSubscription_ok[OF assms]
  by (simp add: set_end_date_frame set_end_date_status set_end_date_other o_def)

theorem renewSubscription_frame_witness:
  "filter (\<lambda>s. sub_id s = 1) (subscriptions (ledger (sub_1 Grace_period new_year_2024) [invoice_1]))
     = [sub_1 Grace_period new_year_2024]
   \<and> sub_status (sub_1 Grace_period new_year_2024) \<noteq> Terminated
   \<and> map sub_status
       (subscriptions (snd (renewSubscription 1
          (ledger (sub_1 Grace_period new_year_2024) [invoice_1]))))
      = [Grace_period]
   \<and> invoices (snd (renewSubscription 1
          (ledger (sub_1 Grace_period new_year_2024) [invoice_1])))
      = [invoice_1]"
proof -
  have h: "filter (\<lambda>s. sub_id s = 1)
      (subscriptions (ledger (sub_1 Grace_period new_year_2024) [invoice_1]))
      = sub_1 Grace_period new_year_2024 # []"
    by (simp add: ledger_def sub_1_def)
  have p: "sub_status (sub_1 Grace_period new_year_2024) \<noteq> Terminated"
    by (simp add: sub_1_def)
  from renewSubscription_frame[OF h p, where d = new_year_2024]
  obtain r st' where
    r: "renewSubscription 1 (ledger (sub_1 Grace_period new_year_2024) [invoice_1])
          = (Resolved r, st')"
    and m: "map sub_status (subscriptions st')
          = map sub_status (subscriptions (ledger (sub_1 Grace_period new_year_2024) [invoice_1]))"
    and f: "st'\<lparr>subscriptions :=
               subscriptions (ledger (sub_1 Grace_period new_year_2024) [invoice_1])\<rparr>
          = ledger (sub_1 Grace_period new_year_2024) [invoice_1]"
    by blast
  have i: "invoices st' = [invoice_1]"
    using arg_cong[OF f, of invoices] by (simp add: ledger_def)
  have m': "map sub_status (subscriptions st') = [Grace_period]"
    using m by (simp add: ledger_def sub_1_def)
  show ?thesis
    using h p i m' unfolding r by simp
qed

subsection \<open>Ingesting transactions\<close>

lemma insert_ignore_distinct:
  "distinct (map payment_key ps) \<Longrightarrow> distinct (map payment_key (insert_ignore p ps))"
  by (simp add: insert_ignore_def)

lemma payment_key_of: "payment_key (payment_of g t) = (g, tx_name t)"
  by (simp add: payment_key_def payment_of_def)

lemma insert_ignore_keys:
  "payment_key ` set (insert_ignore p ps) = insert (payment_key p) (payment_key ` set ps)"
  by (auto simp: insert_ignore_def)

lemma insert_loop_distinct:
  "distinct (map payment_key ps) \<Longrightarrow> distinct (map payment_key (snd (insert_loop ts g s ps)))"
  by (induction ts arbitrary: s ps) (simp_all add: insert_ignore_distinct)

lemma insert_loop_keys:
  "payment_key ` set (snd (insert_loop ts g s ps))
     = payment_key ` set ps \<union> (\<lambda>t. (g, tx_name t)) ` {t \<in> set ts. tx_confirmed t}"
  by (induction ts arbitrary: s ps)
     (auto simp: insert_ignore_keys payment_key_of)

lemma insert_loop_sum:
  "fst (insert_loop ts g s ps) = s + confirmed_total ts"
  by (induction ts arbitrary: s ps) (simp_all add: confirmed_total_def)

lemma confirmPayment_payments: "payments (snd (confirmPayment e g st)) = payments st"
  by (simp add: confirmPayment_def Let_def split: list.splits)

lemma checkForPayment_payments:
  assumes "filter (\<lambda>i. guid i = g) (invoices st) = iv # rest"
    and "inv_status iv = Unpaid"
    and "get_transactions e (xch_payment_address iv) = Rpc_result ts"
  shows "payments (snd (checkForPayment e g st))
     = snd (insertTransactionsAndCalculateSum ts g (payments st))"
proof -
  obtain total ps where ins: "insertTransactionsAndCalculateSum ts g (payments st) = (total, ps)"
    by (cases "insertTransactionsAndCalculateSum ts g (payments st)")
  define st2 where "st2 = st\<lparr>payments := ps, invoices := map (set_amount_paid g total) (invoices st)\<rparr>"
  have "payments (snd (confirmPayment e g st2)) = ps"
    by (simp add: confirmPayment_payments st2_def)
  then show ?thesis
    using assms ins
    by (cases "confirmPayment e g st2"; cases "fst (confirmPayment e g st2)")
       (auto simp: checkForPayment_def Let_def st2_def split: promise.splits)
qed

lemma checkForPayment_payments_cases:
  "payments (snd (checkForPayment e g st)) = payments st
   \<or> (\<exists>ts. payments (snd (checkForPayment e g st))
         = snd (insertTransactionsAndCalculateSum ts g (payments st)))"
proof (cases "filter (\<lambda>i. guid i = g) (invoices st)")
  case Nil
  then show ?thesis by (simp add: checkForPayment_def)
next
  case (Cons iv rest)
  show ?thesis
  proof (cases "inv_status iv")
    case Paid
    with Cons show ?thesis by (simp add: checkForPayment_def)
  next
    case Unpaid
    show ?thesis
    proof (cases "get_transactions e (xch_payment_address iv)")
      case (Rpc_result ts)
      from checkForPayment_payments[OF Cons Unpaid Rpc_result] show ?thesis by blast
    qed (use Cons Unpaid in \<open>simp_all add: checkForPayment_def\<close>)
  qed
qed

lemma checkForPayment_distinct:
  "distinct (map payment_key (payments st))
   \<Longrightarrow> distinct (map payment_key (payments (snd (checkForPayment e g st))))"
  using checkForPayment_payments_cases[of e g st]
  by (auto simp: insertTransactionsAndCalculateSum_def insert_loop_distinct)

lemma checkForPayment_keys_mono:
  "payment_key ` set (payments st)
   \<subseteq> payment_key ` set (payments (snd (checkForPayment e g st)))"
  using checkForPayment_payments_cases[of e g st] insert_loop_keys
  by (auto simp: insertTransactionsAndCalculateSum_def)

lemma rows_of_key_one:
  assumes "distinct (map payment_key ps)" and "(g, c) \<in> payment_key ` set ps"
  shows "length (rows_of_key g c ps) = 1"
  using assms
proof (induction ps)
  case Nil
  then show ?case by simp
next
  case (Cons p ps)
  show ?case
  proof (cases "payment_key p = (g, c)")
    case True
    with Cons.prems have "(g, c) \<notin> payment_key ` set ps" by auto
    then have "rows_of_key g c ps = []"
      by (auto simp: rows_of_key_def payment_key_def filter_empty_conv)
    with True show ?thesis by (simp add: rows_of_key_def payment_key_def)
  next
    case False
    with Cons show ?thesis by (auto simp: rows_of_key_def payment_key_def)
  qed
qed

lemma insert_loop_appends: "\<exists>new. snd (insert_loop ts g s ps) = ps @ new"
proof (induction ts arbitrary: s ps)
  case Nil
  then show ?case by simp
next
  case (Cons t ts)
  show ?case
  proof (cases "tx_confirmed t")
    case True
    obtain new where "snd (insert_loop ts g (s + to_xch (tx_amount t))
        (insert_ignore (payment_of g t) ps)) = insert_ignore (payment_of g t) ps @ new"
      using Cons.IH by blast
    then show ?thesis using True by (auto simp: insert_ignore_def)
  next
    case False
    then show ?thesis using Cons.IH by simp
  qed
qed

lemma checkForPayment_appends:
  "\<exists>new. payments (snd (checkForPayment e g st)) = payments st @ new"
  using checkForPayment_payments_cases[of e g st] insert_loop_appends
  by (auto simp: insertTransactionsAndCalculateSum_def)

lemma rows_of_key_append_old:
  assumes "distinct (map payment_key (ps @ new))" and "(g, c) \<in> payment_key ` set ps"
  shows "rows_of_key g c (ps @ new) = rows_of_key g c ps"
proof -
  have "(g, c) \<notin> payment_key ` set new"
    using assms by auto
  then have "rows_of_key g c new = []"
    by (auto simp: rows_of_key_def payment_key_def filter_empty_conv)
  then show ?thesis by (simp add: rows_of_key_def)
qed

text \<open>
  C2. Let the payments table satisfy its unique key, and let a poll of an unpaid invoice
  see the confirmed transaction \<open>t\<close>. After that poll the table holds exactly one row with
  the key (guid of the invoice, name of \<open>t\<close>); after a second poll, whatever the node
  answers then (in particular a list that holds \<open>t\<close> again), it still holds exactly one
  such row, and it is the row of the first poll: the second insert is ignored.
\<close>

theorem checkForPayment_same_transaction_twice:
  assumes "distinct (map payment_key (payments st))"
    and "filter (\<lambda>i. guid i = g) (invoices st) = iv # rest"
    and "inv_status iv = Unpaid"
    and "get_transactions e1 (xch_payment_address iv) = Rpc_result ts1"
    and "t \<in> set ts1" and "tx_confirmed t"
  shows "length (rows_of_key g (tx_name t) (payments (polls [e1] g st))) = 1
     \<and> length (rows_of_key g (tx_name t) (payments (polls [e1, e2] g st))) = 1
     \<and> rows_of_key g (tx_name t) (payments (polls [e1, e2] g st))
        = rows_of_key g (tx_name t) (payments (polls [e1] g st))"
proof -
  define st1 where "st1 = snd (checkForPayment e1 g st)"
  define st2 where "st2 = snd (checkForPayment e2 g st1)"
  have d1: "distinct (map payment_key (payments st1))"
    unfolding st1_def using assms(1) by (rule checkForPayment_distinct)
  have "payments st1 = snd (insertTransactionsAndCalculateSum ts1 g (payments st))"
    unfolding st1_def using assms(2,3,4) by (rule checkForPayment_payments)
  then have k1: "(g, tx_name t) \<in> payment_key ` set (payments st1)"
    using assms(5,6) by (simp add: insertTransactionsAndCalculateSum_def insert_loop_keys)
  have d2: "distinct (map payment_key (payments st2))"
    unfolding st2_def using d1 by (rule checkForPayment_distinct)
  obtain new where new: "payments st2 = payments st1 @ new"
    unfolding st2_def using checkForPayment_appends by blast
  have one: "length (rows_of_key g (tx_name t) (payments st1)) = 1"
    using d1 k1 by (rule rows_of_key_one)
  have same: "rows_of_key g (tx_name t) (payments st2) = rows_of_key g (tx_name t) (payments st1)"
    using d2 k1 unfolding new by (rule rows_of_key_append_old)
  show ?thesis
    using one same by (simp add: st1_def st2_def)
qed

subsection \<open>The recorded payments and the amount paid\<close>

lemma paid_total_append: "paid_total g (ps @ qs) = paid_total g ps + paid_total g qs"
  by (simp add: paid_total_def)

lemma paid_total_payment_of: "paid_total g [payment_of g t] = to_xch (tx_amount t)"
  by (simp add: paid_total_def payment_of_def)

lemma insert_loop_paid_total:
  assumes "distinct (map tx_name (filter tx_confirmed ts))"
  shows "paid_total g (snd (insert_loop ts g s ps))
     = paid_total g ps
       + sum_list (map (\<lambda>t. to_xch (tx_amount t))
           (filter (\<lambda>t. tx_confirmed t \<and> (g, tx_name t) \<notin> payment_key ` set ps) ts))"
  using assms
proof (induction ts arbitrary: s ps)
  case Nil
  then show ?case by simp
next
  case (Cons t ts)
  show ?case
  proof (cases "tx_confirmed t")
    case False
    then show ?thesis using Cons by simp
  next
    case True
    then have d: "distinct (map tx_name (filter tx_confirmed ts))"
      and fresh: "\<forall>x\<in>set ts. tx_confirmed x \<longrightarrow> tx_name x \<noteq> tx_name t"
      using Cons.prems by (auto simp: image_iff)
    show ?thesis
    proof (cases "(g, tx_name t) \<in> payment_key ` set ps")
      case old: True
      then have "insert_ignore (payment_of g t) ps = ps"
        by (simp add: insert_ignore_def payment_key_of)
      then show ?thesis
        using True old Cons.IH[OF d] by simp
    next
      case new: False
      then have ins: "insert_ignore (payment_of g t) ps = ps @ [payment_of g t]"
        by (simp add: insert_ignore_def payment_key_of)
      have "filter (\<lambda>x. tx_confirmed x \<and> (g, tx_name x) \<notin> payment_key ` set (ps @ [payment_of g t])) ts
          = filter (\<lambda>x. tx_confirmed x \<and> (g, tx_name x) \<notin> payment_key ` set ps) ts"
        using fresh by (intro filter_cong) (auto simp: payment_key_of)
      then show ?thesis
        using True new Cons.IH[OF d, of _ "ps @ [payment_of g t]"]
        by (simp add: ins paid_total_append paid_total_payment_of)
    qed
  qed
qed

lemma sum_list_filter_split:
  fixes f :: "'a \<Rightarrow> rat"
  shows "sum_list (map f (filter (\<lambda>x. P x \<and> Q x) xs)) + sum_list (map f (filter (\<lambda>x. P x \<and> \<not> Q x) xs))
     = sum_list (map f (filter P xs))"
  by (induction xs) auto

lemma paid_total_matches:
  assumes dps: "distinct (map payment_key ps)"
    and dts: "distinct (map tx_name (filter tx_confirmed ts))"
    and m: "\<forall>p\<in>set ps. invoice_guid p = g \<longrightarrow>
              (\<exists>t\<in>set ts. tx_confirmed t \<and> tx_name t = coin_name p
                 \<and> to_xch (tx_amount t) = amount p)"
  shows "paid_total g ps
     = sum_list (map (\<lambda>t. to_xch (tx_amount t))
         (filter (\<lambda>t. tx_confirmed t \<and> (g, tx_name t) \<in> payment_key ` set ps) ts))"
proof -
  let ?P = "filter (\<lambda>p. invoice_guid p = g) ps"
  let ?C = "filter (\<lambda>t. tx_confirmed t \<and> (g, tx_name t) \<in> payment_key ` set ps) ts"
  let ?rp = "\<lambda>p. (coin_name p, amount p)"
  let ?rc = "\<lambda>t. (tx_name t, to_xch (tx_amount t))"
  have injP: "inj_on payment_key (set ps)" and dP0: "distinct ps"
    using dps by (auto simp: distinct_map)
  have injP': "inj_on ?rp (set ?P)"
  proof (rule inj_onI)
    fix p q assume "p \<in> set ?P" "q \<in> set ?P" "?rp p = ?rp q"
    then have "payment_key p = payment_key q" "p \<in> set ps" "q \<in> set ps"
      by (auto simp: payment_key_def)
    then show "p = q" using injP by (auto dest: inj_onD)
  qed
  have "?C = filter (\<lambda>t. (g, tx_name t) \<in> payment_key ` set ps) (filter tx_confirmed ts)"
    by (simp add: conj_commute)
  then have dC: "distinct (map tx_name ?C)"
    using dts distinct_map_filter by metis
  then have injC: "inj_on tx_name (set ?C)" and dC0: "distinct ?C"
    by (auto simp: distinct_map)
  have injC': "inj_on ?rc (set ?C)"
  proof (rule inj_onI)
    fix p q assume "p \<in> set ?C" "q \<in> set ?C" "?rc p = ?rc q"
    then show "p = q" using injC by (auto dest: inj_onD)
  qed
  have injall: "inj_on tx_name (set (filter tx_confirmed ts))"
    using dts by (auto simp: distinct_map)
  have img: "?rp ` set ?P = ?rc ` set ?C"
  proof (intro set_eqI iffI)
    fix x assume "x \<in> ?rp ` set ?P"
    then obtain p where p: "p \<in> set ps" "invoice_guid p = g" "x = ?rp p" by auto
    with m obtain t where t: "t \<in> set ts" "tx_confirmed t" "tx_name t = coin_name p"
      "to_xch (tx_amount t) = amount p" by blast
    have "(g, tx_name t) \<in> payment_key ` set ps"
      using p t by (force simp: payment_key_def)
    with t p show "x \<in> ?rc ` set ?C" by force
  next
    fix x assume "x \<in> ?rc ` set ?C"
    then obtain t where t: "t \<in> set ts" "tx_confirmed t" "(g, tx_name t) \<in> payment_key ` set ps"
      "x = ?rc t" by auto
    then obtain p where p: "p \<in> set ps" "invoice_guid p = g" "coin_name p = tx_name t"
      by (auto simp: payment_key_def)
    with m obtain t' where t': "t' \<in> set ts" "tx_confirmed t'" "tx_name t' = coin_name p"
      "to_xch (tx_amount t') = amount p" by blast
    have "t' = t"
      using injall t t' p by (auto dest!: inj_onD[where x = t' and y = t])
    with t t' p show "x \<in> ?rp ` set ?P" by force
  qed
  have "paid_total g ps = sum amount (set ?P)"
    unfolding paid_total_def using dP0 by (simp add: sum_list_distinct_conv_sum_set)
  also have "\<dots> = sum snd (?rp ` set ?P)"
    using injP' by (simp add: sum.reindex o_def)
  also have "\<dots> = sum snd (?rc ` set ?C)"
    by (simp only: img)
  also have "\<dots> = sum (\<lambda>t. to_xch (tx_amount t)) (set ?C)"
    using injC' by (simp add: sum.reindex o_def)
  also have "\<dots> = sum_list (map (\<lambda>t. to_xch (tx_amount t)) ?C)"
    using dC0 by (simp add: sum_list_distinct_conv_sum_set)
  finally show ?thesis .
qed

lemma insert_loop_paid_total_complete:
  assumes "distinct (map payment_key ps)"
    and "distinct (map tx_name (filter tx_confirmed ts))"
    and "\<forall>p\<in>set ps. invoice_guid p = g \<longrightarrow>
              (\<exists>t\<in>set ts. tx_confirmed t \<and> tx_name t = coin_name p
                 \<and> to_xch (tx_amount t) = amount p)"
  shows "paid_total g (snd (insert_loop ts g s ps)) = confirmed_total ts"
  unfolding insert_loop_paid_total[OF assms(2)] paid_total_matches[OF assms]
  using sum_list_filter_split[of "\<lambda>t. to_xch (tx_amount t)" tx_confirmed
      "\<lambda>t. (g, tx_name t) \<in> payment_key ` set ps" ts]
  by (simp add: confirmed_total_def)

lemma to_xch_coin: "to_xch (tx_amount (coin c a)) = of_nat a"
  by (simp add: to_xch_def coin_def)

lemma coin_sel: "tx_confirmed (coin c a)" "tx_name (coin c a) = c"
  by (simp_all add: coin_def)

lemma confirmed_total_simps:
  "confirmed_total [] = 0"
  "confirmed_total (t # ts) = (if tx_confirmed t then to_xch (tx_amount t) else 0) + confirmed_total ts"
  by (simp_all add: confirmed_total_def)

lemma insertTransactionsAndCalculateSum_fst:
  "fst (insertTransactionsAndCalculateSum ts g ps) = confirmed_total ts"
  by (simp add: insertTransactionsAndCalculateSum_def insert_loop_sum)

lemma confirmPayment_invoices:
  "invoices (snd (confirmPayment e g st)) = map (mark_paid g) (invoices st)"
  by (simp add: confirmPayment_def Let_def split: list.splits)

lemma checkForPayment_below_due:
  assumes "filter (\<lambda>i. guid i = g) (invoices st) = iv # rest"
    and "inv_status iv = Unpaid"
    and "get_transactions e (xch_payment_address iv) = Rpc_result ts"
    and "confirmed_total ts \<noteq> 0"
    and "confirmed_total ts < total_amount_due iv"
  shows "checkForPayment e g st =
     (Resolved iv,
      st\<lparr>payments := snd (insertTransactionsAndCalculateSum ts g (payments st)),
         invoices := map (set_amount_paid g (confirmed_total ts)) (invoices st)\<rparr>)"
proof -
  obtain ps where ins: "insertTransactionsAndCalculateSum ts g (payments st) = (confirmed_total ts, ps)"
    using insertTransactionsAndCalculateSum_fst[of ts g "payments st"]
    by (cases "insertTransactionsAndCalculateSum ts g (payments st)") simp
  show ?thesis
    using assms by (simp add: checkForPayment_def Let_def ins)
qed

lemma checkForPayment_zero_total:
  assumes "filter (\<lambda>i. guid i = g) (invoices st) = iv # rest"
    and "inv_status iv = Unpaid"
    and "get_transactions e (xch_payment_address iv) = Rpc_result ts"
    and "confirmed_total ts = 0"
  shows "checkForPayment e g st =
     (Rejected Balance_unavailable,
      st\<lparr>payments := snd (insertTransactionsAndCalculateSum ts g (payments st))\<rparr>)"
proof -
  obtain ps where ins: "insertTransactionsAndCalculateSum ts g (payments st) = (confirmed_total ts, ps)"
    using insertTransactionsAndCalculateSum_fst[of ts g "payments st"]
    by (cases "insertTransactionsAndCalculateSum ts g (payments st)") simp
  show ?thesis
    using assms by (simp add: checkForPayment_def Let_def ins)
qed

lemma checkForPayment_invoices:
  assumes "filter (\<lambda>i. guid i = g) (invoices st) = iv # rest"
    and "inv_status iv = Unpaid"
    and "get_transactions e (xch_payment_address iv) = Rpc_result ts"
    and "confirmed_total ts \<noteq> 0"
  shows "invoices (snd (checkForPayment e g st))
     = (if total_amount_due iv \<le> confirmed_total ts
        then map (mark_paid g) (map (set_amount_paid g (confirmed_total ts)) (invoices st))
        else map (set_amount_paid g (confirmed_total ts)) (invoices st))"
proof (cases "total_amount_due iv \<le> confirmed_total ts")
  case False
  then show ?thesis
    using checkForPayment_below_due[OF assms] by simp
next
  case True
  obtain ps where ins: "insertTransactionsAndCalculateSum ts g (payments st) = (confirmed_total ts, ps)"
    using insertTransactionsAndCalculateSum_fst[of ts g "payments st"]
    by (cases "insertTransactionsAndCalculateSum ts g (payments st)") simp
  define st2 where "st2 = st\<lparr>payments := ps,
      invoices := map (set_amount_paid g (confirmed_total ts)) (invoices st)\<rparr>"
  have "invoices (snd (confirmPayment e g st2))
      = map (mark_paid g) (map (set_amount_paid g (confirmed_total ts)) (invoices st))"
    by (simp add: confirmPayment_invoices st2_def)
  then show ?thesis
    using assms True ins
    by (cases "confirmPayment e g st2"; cases "fst (confirmPayment e g st2)")
       (auto simp: checkForPayment_def Let_def st2_def split: promise.splits)
qed

lemma set_amount_paid_guid: "guid (set_amount_paid g a x) = guid x"
  by (simp add: set_amount_paid_def)

lemma set_amount_paid_status: "inv_status (set_amount_paid g a x) = inv_status x"
  by (simp add: set_amount_paid_def)

lemma mark_paid_guid: "guid (mark_paid g x) = guid x"
  by (simp add: mark_paid_def)

lemma mark_paid_amount_paid: "amount_paid (mark_paid g x) = amount_paid x"
  by (simp add: mark_paid_def)

lemma set_amount_paid_hit: "guid x = g \<Longrightarrow> amount_paid (set_amount_paid g a x) = Some a"
  by (simp add: set_amount_paid_def)

lemma amount_paid_set:
  assumes "i \<in> set (map (set_amount_paid g a) xs)" and "guid i = g"
  shows "amount_paid i = Some a"
proof -
  obtain x where x: "i = set_amount_paid g a x"
    using assms(1) by auto
  then have "guid x = g"
    using assms(2) by (simp add: set_amount_paid_guid)
  then show ?thesis
    unfolding x by (rule set_amount_paid_hit)
qed

lemma amount_paid_set_paid:
  assumes "i \<in> set (map (mark_paid g) (map (set_amount_paid g a) xs))" and "guid i = g"
  shows "amount_paid i = Some a"
proof -
  obtain x where x: "i = mark_paid g (set_amount_paid g a x)"
    using assms(1) by auto
  then have "guid x = g"
    using assms(2) by (simp add: set_amount_paid_guid mark_paid_guid)
  then show ?thesis
    unfolding x by (simp add: mark_paid_amount_paid set_amount_paid_hit)
qed

lemma amount_paid_after_poll:
  assumes "filter (\<lambda>i. guid i = g) (invoices st) = iv # rest"
    and "inv_status iv = Unpaid"
    and "get_transactions e (xch_payment_address iv) = Rpc_result ts"
    and "confirmed_total ts \<noteq> 0"
    and "i \<in> set (invoices (snd (checkForPayment e g st)))" and "guid i = g"
  shows "amount_paid i = Some (confirmed_total ts)"
proof (cases "total_amount_due iv \<le> confirmed_total ts")
  case True
  then have "i \<in> set (map (mark_paid g) (map (set_amount_paid g (confirmed_total ts)) (invoices st)))"
    using assms(5) unfolding checkForPayment_invoices[OF assms(1-4)] by simp
  then show ?thesis using assms(6) by (rule amount_paid_set_paid)
next
  case False
  then have "i \<in> set (map (set_amount_paid g (confirmed_total ts)) (invoices st))"
    using assms(5) unfolding checkForPayment_invoices[OF assms(1-4)] by simp
  then show ?thesis using assms(6) by (rule amount_paid_set)
qed

lemma checkForPayment_guids:
  assumes "filter (\<lambda>i. guid i = g) (invoices st) = iv # rest"
    and "inv_status iv = Unpaid"
    and "get_transactions e (xch_payment_address iv) = Rpc_result ts"
    and "confirmed_total ts \<noteq> 0"
  shows "map guid (invoices (snd (checkForPayment e g st))) = map guid (invoices st)"
  unfolding checkForPayment_invoices[OF assms]
  by (simp add: o_def set_amount_paid_guid mark_paid_guid)

text \<open>
  C4 (amended). In a call on an unpaid invoice in which the node answers with a list whose
  confirmed amounts sum to a non-zero total, the amount applied is the sum of the
  display-unit amounts of all confirmed transactions of the list, whatever rows the table
  held before (so also of those whose insert is ignored), and \<open>amount_paid\<close> of the invoice
  is overwritten with that sum: the stored value does not enter the new one.
\<close>

theorem checkForPayment_overwrites_amount_paid:
  assumes "filter (\<lambda>i. guid i = g) (invoices st) = iv # rest"
    and "inv_status iv = Unpaid"
    and "get_transactions e (xch_payment_address iv) = Rpc_result ts"
    and "confirmed_total ts \<noteq> 0"
  shows "fst (insertTransactionsAndCalculateSum ts g (payments st)) = confirmed_total ts
     \<and> map guid (invoices (snd (checkForPayment e g st))) = map guid (invoices st)
     \<and> (\<forall>i\<in>set (invoices (snd (checkForPayment e g st))).
           guid i = g \<longrightarrow> amount_paid i = Some (confirmed_total ts))"
  using amount_paid_after_poll[OF assms] checkForPayment_guids[OF assms]
  by (simp add: insertTransactionsAndCalculateSum_fst)

lemma insert_loop_paid_total_other:
  "h \<noteq> g \<Longrightarrow> paid_total h (snd (insert_loop ts g s ps)) = paid_total h ps"
proof (induction ts arbitrary: s ps)
  case Nil
  then show ?case by simp
next
  case (Cons t ts)
  have "paid_total h (insert_ignore (payment_of g t) ps) = paid_total h ps"
    using Cons.prems by (simp add: insert_ignore_def paid_total_def payment_of_def)
  then show ?case
    using Cons by simp
qed

lemma checkForPayment_paid_total_other:
  assumes "h \<noteq> g"
  shows "paid_total h (payments (snd (checkForPayment e g st))) = paid_total h (payments st)"
  using checkForPayment_payments_cases[of e g st] insert_loop_paid_total_other[OF assms]
  by (auto simp: insertTransactionsAndCalculateSum_def)

lemma checkForPayment_unchanged:
  assumes "filter (\<lambda>i. guid i = g) (invoices st) = []
     \<or> (\<exists>iv rest. filter (\<lambda>i. guid i = g) (invoices st) = iv # rest
          \<and> (inv_status iv = Paid
             \<or> get_transactions e (xch_payment_address iv) = Rpc_rejects
             \<or> get_transactions e (xch_payment_address iv) = Rpc_no_result))"
  shows "snd (checkForPayment e g st) = st"
  using assms by (auto simp: checkForPayment_def)

lemma checkForPayment_invoices_cases:
  "invoices (snd (checkForPayment e g st)) = invoices st
   \<or> (\<exists>a. invoices (snd (checkForPayment e g st)) = map (set_amount_paid g a) (invoices st))
   \<or> (\<exists>a. invoices (snd (checkForPayment e g st))
          = map (mark_paid g) (map (set_amount_paid g a) (invoices st)))"
proof (cases "filter (\<lambda>i. guid i = g) (invoices st)")
  case Nil
  then show ?thesis by (simp add: checkForPayment_unchanged)
next
  case (Cons iv rest)
  show ?thesis
  proof (cases "inv_status iv")
    case Paid
    with Cons show ?thesis by (simp add: checkForPayment_unchanged)
  next
    case Unpaid
    show ?thesis
    proof (cases "get_transactions e (xch_payment_address iv)")
      case (Rpc_result ts)
      show ?thesis
      proof (cases "confirmed_total ts = 0")
        case True
        show ?thesis
          unfolding checkForPayment_zero_total[OF Cons Unpaid Rpc_result True] by simp
      next
        case False
        show ?thesis
          unfolding checkForPayment_invoices[OF Cons Unpaid Rpc_result False] by auto
      qed
    qed (use Cons in \<open>simp_all add: checkForPayment_unchanged\<close>)
  qed
qed

lemma set_amount_paid_miss: "guid x \<noteq> g \<Longrightarrow> set_amount_paid g a x = x"
  by (simp add: set_amount_paid_def)

lemma amount_paid_value_mark_paid: "amount_paid_value (mark_paid g x) = amount_paid_value x"
  by (simp add: amount_paid_value_def mark_paid_amount_paid)

lemma checkForPayment_other_invoice:
  assumes "i \<in> set (invoices (snd (checkForPayment e g st)))" and "guid i \<noteq> g"
  shows "\<exists>x\<in>set (invoices st). guid x = guid i \<and> amount_paid_value x = amount_paid_value i"
proof -
  consider (same) "invoices (snd (checkForPayment e g st)) = invoices st"
    | (set) a where "invoices (snd (checkForPayment e g st)) = map (set_amount_paid g a) (invoices st)"
    | (paid) a where "invoices (snd (checkForPayment e g st))
          = map (mark_paid g) (map (set_amount_paid g a) (invoices st))"
    using checkForPayment_invoices_cases[of e g st] by blast
  then show ?thesis
  proof cases
    case same
    then show ?thesis using assms(1) by auto
  next
    case set
    then obtain x where x: "x \<in> set (invoices st)" "i = set_amount_paid g a x"
      using assms(1) by auto
    then have "guid x \<noteq> g"
      using assms(2) by (simp add: set_amount_paid_guid)
    then have "i = x"
      using x(2) by (simp add: set_amount_paid_miss)
    then show ?thesis using x(1) by auto
  next
    case paid
    then obtain x where x: "x \<in> set (invoices st)" "i = mark_paid g (set_amount_paid g a x)"
      using assms(1) by auto
    then have "guid x \<noteq> g"
      using assms(2) by (simp add: set_amount_paid_guid mark_paid_guid)
    then have "i = mark_paid g x"
      using x(2) by (simp add: set_amount_paid_miss)
    then have "guid x = guid i" "amount_paid_value x = amount_paid_value i"
      by (simp_all add: mark_paid_guid amount_paid_value_mark_paid)
    then show ?thesis using x(1) by auto
  qed
qed

lemma to_xch_sum_nonneg: "0 \<le> sum_list (map (\<lambda>t. to_xch (tx_amount t)) ts)"
  by (rule sum_list_nonneg) (auto simp: to_xch_def)

lemma amount_paid_ok_step_same:
  assumes dk: "distinct (map payment_key (payments st))"
    and ok: "amount_paid_ok g st"
    and c: "complete_history e g st"
  shows "amount_paid_ok g (snd (checkForPayment e g st))"
proof (cases "filter (\<lambda>i. guid i = g) (invoices st)")
  case Nil
  then show ?thesis using ok by (simp add: checkForPayment_unchanged)
next
  case (Cons iv rest)
  show ?thesis
  proof (cases "inv_status iv")
    case Paid
    with Cons show ?thesis using ok by (simp add: checkForPayment_unchanged)
  next
    case Unpaid
    show ?thesis
    proof (cases "get_transactions e (xch_payment_address iv)")
      case (Rpc_result ts)
      have dn: "distinct (map tx_name (filter tx_confirmed ts))"
        and m: "\<forall>p\<in>set (payments st). invoice_guid p = g \<longrightarrow>
                     (\<exists>t\<in>set ts. tx_confirmed t \<and> tx_name t = coin_name p
                        \<and> to_xch (tx_amount t) = amount p)"
        using c Cons Unpaid Rpc_result by (simp_all add: complete_history_def)
      have after: "paid_total g (payments (snd (checkForPayment e g st))) = confirmed_total ts"
        unfolding checkForPayment_payments[OF Cons Unpaid Rpc_result]
          insertTransactionsAndCalculateSum_def
        using dk dn m by (rule insert_loop_paid_total_complete)
      show ?thesis
      proof (cases "confirmed_total ts = 0")
        case False
        show ?thesis
          unfolding amount_paid_ok_def after
          using amount_paid_after_poll[OF Cons Unpaid Rpc_result False]
          by (auto simp: amount_paid_value_def)
      next
        case True
        have "paid_total g (payments st) \<le> confirmed_total ts"
          unfolding paid_total_matches[OF dk dn m]
          using sum_list_filter_split[of "\<lambda>t. to_xch (tx_amount t)" tx_confirmed
              "\<lambda>t. (g, tx_name t) \<in> payment_key ` set (payments st)" ts]
            to_xch_sum_nonneg[of "filter (\<lambda>t. tx_confirmed t
               \<and> (g, tx_name t) \<notin> payment_key ` set (payments st)) ts"]
          by (simp add: confirmed_total_def)
        moreover have "0 \<le> paid_total g (payments st)"
          unfolding paid_total_matches[OF dk dn m] by (rule to_xch_sum_nonneg)
        ultimately have before: "paid_total g (payments st) = 0"
          using True by simp
        have inv: "invoices (snd (checkForPayment e g st)) = invoices st"
          unfolding checkForPayment_zero_total[OF Cons Unpaid Rpc_result True] by simp
        show ?thesis
          using ok unfolding amount_paid_ok_def after inv before True by simp
      qed
    qed (use Cons ok in \<open>simp_all add: checkForPayment_unchanged\<close>)
  qed
qed

lemma amount_paid_ok_step_other:
  assumes "h \<noteq> g" and ok: "amount_paid_ok h st"
  shows "amount_paid_ok h (snd (checkForPayment e g st))"
  unfolding amount_paid_ok_def checkForPayment_paid_total_other[OF assms(1)]
proof (intro ballI impI)
  fix i assume i: "i \<in> set (invoices (snd (checkForPayment e g st)))" "guid i = h"
  then obtain x where "x \<in> set (invoices st)" "guid x = guid i"
    "amount_paid_value x = amount_paid_value i"
    using checkForPayment_other_invoice[of i e g st] assms(1) by auto
  then show "amount_paid_value i = paid_total h (payments st)"
    using ok i(2) by (auto simp: amount_paid_ok_def)
qed

lemma amount_paid_ok_step:
  assumes "distinct (map payment_key (payments st))"
    and "amount_paid_ok h st"
    and "complete_history e g st"
  shows "amount_paid_ok h (snd (checkForPayment e g st))"
  using assms amount_paid_ok_step_same amount_paid_ok_step_other by (cases "h = g") auto

text \<open>
  C1 (amended). Start from a state in which the payments table satisfies its unique key and
  \<open>amount_paid\<close> of the invoice \<open>h\<close> (an unset column read as 0) is the sum of the amounts of
  the payment rows recorded for it, as for a new invoice without rows. Then the same
  holds after any sequence of \<open>checkForPayment\<close> calls, on this or on other invoices,
  whatever their outcome (invoice missing or paid, node failing, zero total, underpaid,
  settled), provided every list the node returns to a poll is the complete history of the
  polled invoice.
\<close>

theorem amount_paid_is_paid_total_after_any_calls:
  assumes "distinct (map payment_key (payments st))"
    and "amount_paid_ok h st"
    and "complete_histories cs st"
  shows "\<forall>i\<in>set (invoices (reconciliations cs st)).
           guid i = h \<longrightarrow>
             amount_paid_value i = paid_total h (payments (reconciliations cs st))"
proof -
  have "amount_paid_ok h (reconciliations cs st)"
    using assms
  proof (induction cs arbitrary: st)
    case Nil
    then show ?case by simp
  next
    case (Cons c cs)
    obtain e g where c: "c = (e, g)" by (cases c)
    have "distinct (map payment_key (payments (snd (checkForPayment e g st))))"
      using Cons.prems(1) by (rule checkForPayment_distinct)
    moreover have "amount_paid_ok h (snd (checkForPayment e g st))"
      using Cons.prems unfolding c by (auto intro: amount_paid_ok_step)
    moreover have "complete_histories cs (snd (checkForPayment e g st))"
      using Cons.prems(3) unfolding c by simp
    ultimately show ?case
      unfolding c using Cons.IH by simp
  qed
  then show ?thesis by (simp add: amount_paid_ok_def)
qed

text \<open>
  Underpayment: on an unpaid invoice, when the node answers with a list whose confirmed
  amounts sum to a total below the amount due, \<open>checkForPayment\<close> resolves with the
  invoice as loaded if that total is not zero, and is rejected with the balance error if
  it is zero. Either way no invoice changes its status, no subscription is touched and no
  activation command is sent.
\<close>

lemma checkForPayment_underpayment:
  assumes "filter (\<lambda>i. guid i = g) (invoices st) = iv # rest"
    and "inv_status iv = Unpaid"
    and "get_transactions e (xch_payment_address iv) = Rpc_result ts"
    and "confirmed_total ts < total_amount_due iv"
  shows "fst (checkForPayment e g st)
       = (if confirmed_total ts = 0 then Rejected Balance_unavailable else Resolved iv)
     \<and> map inv_status (invoices (snd (checkForPayment e g st))) = map inv_status (invoices st)
     \<and> subscriptions (snd (checkForPayment e g st)) = subscriptions st
     \<and> rpc_sent (snd (checkForPayment e g st)) = rpc_sent st"
proof (cases "confirmed_total ts = 0")
  case True
  show ?thesis
    unfolding checkForPayment_zero_total[OF assms(1-3) True] using True by simp
next
  case False
  show ?thesis
    unfolding checkForPayment_below_due[OF assms(1-3) False assms(4)] using False
    by (simp add: o_def set_amount_paid_status)
qed

subsection \<open>Runs on the small ledger\<close>

lemma ledger_0_invoice:
  "filter (\<lambda>i. guid i = ''inv-1'') (invoices ledger_0) = invoice_1 # []"
  by (simp add: ledger_0_def ledger_def invoice_1_def)

lemma ledger_1_invoice:
  "filter (\<lambda>i. guid i = ''inv-1'') (invoices ledger_1) = invoice_1\<lparr>amount_paid := Some 4\<rparr> # []"
  by (simp add: ledger_1_def ledger_0_def ledger_def invoice_1_def)

lemma invoice_1_unpaid:
  "inv_status invoice_1 = Unpaid" "inv_status (invoice_1\<lparr>amount_paid := x\<rparr>) = Unpaid"
  by (simp_all add: invoice_1_def)

lemma node_transactions: "get_transactions (node r) a = r"
  by (simp add: node_def)

lemma invoice_1_due:
  "total_amount_due invoice_1 = 10" "total_amount_due (invoice_1\<lparr>amount_paid := x\<rparr>) = 10"
  by (simp_all add: invoice_1_def)

lemma payment_key_of_coin: "payment_key (payment_of g (coin c a)) = (g, c)"
  by (simp add: payment_key_of coin_sel)

lemma insert_loop_simps:
  "insertTransactionsAndCalculateSum ts g ps = insert_loop ts g 0 ps"
  "insert_loop (coin c a # ts) g s ps
     = insert_loop ts g (s + of_nat a) (insert_ignore (payment_of g (coin c a)) ps)"
  by (simp_all add: insertTransactionsAndCalculateSum_def coin_sel to_xch_coin)

lemma insert_ignore_simps:
  "insert_ignore p [] = [p]"
  "insert_ignore p (q # ps) = (if payment_key p = payment_key q then q # ps else q # insert_ignore p ps)"
  by (auto simp: insert_ignore_def)

lemmas poll_simps = insert_loop_simps insert_ignore_simps payment_key_of_coin
  confirmed_total_simps coin_sel to_xch_coin set_amount_paid_def

lemma first_poll:
  "checkForPayment (node (Rpc_result [coin ''a'' 4])) ''inv-1'' ledger_0
     = (Resolved invoice_1, ledger_1)"
proof -
  have n: "confirmed_total [coin ''a'' 4] \<noteq> 0"
    by (simp add: poll_simps)
  have l: "confirmed_total [coin ''a'' 4] < total_amount_due invoice_1"
    by (simp add: poll_simps invoice_1_due)
  show ?thesis
    unfolding checkForPayment_below_due[OF ledger_0_invoice invoice_1_unpaid(1)
        node_transactions n l]
    by (simp add: ledger_1_def ledger_0_def ledger_def poll_simps invoice_1_def)
qed

lemma repeated_poll:
  "checkForPayment (node (Rpc_result [coin ''a'' 4])) ''inv-1'' ledger_1
     = (Resolved (invoice_1\<lparr>amount_paid := Some 4\<rparr>), ledger_1)"
proof -
  have n: "confirmed_total [coin ''a'' 4] \<noteq> 0"
    by (simp add: poll_simps)
  have l: "confirmed_total [coin ''a'' 4] < total_amount_due (invoice_1\<lparr>amount_paid := Some 4\<rparr>)"
    by (simp add: poll_simps invoice_1_due)
  show ?thesis
    unfolding checkForPayment_below_due[OF ledger_1_invoice invoice_1_unpaid(2)
        node_transactions n l]
    by (simp add: ledger_1_def ledger_0_def ledger_def poll_simps invoice_1_def)
qed

lemma poll_other_transaction:
  "checkForPayment (node (Rpc_result [coin ''b'' 2])) ''inv-1'' ledger_1
     = (Resolved (invoice_1\<lparr>amount_paid := Some 4\<rparr>),
        ledger_1\<lparr>invoices := [invoice_1\<lparr>amount_paid := Some 2\<rparr>],
                 payments := [payment_of ''inv-1'' (coin ''a'' 4),
                              payment_of ''inv-1'' (coin ''b'' 2)]\<rparr>)"
proof -
  have n: "confirmed_total [coin ''b'' 2] \<noteq> 0"
    by (simp add: poll_simps)
  have l: "confirmed_total [coin ''b'' 2] < total_amount_due (invoice_1\<lparr>amount_paid := Some 4\<rparr>)"
    by (simp add: poll_simps invoice_1_due)
  show ?thesis
    unfolding checkForPayment_below_due[OF ledger_1_invoice invoice_1_unpaid(2)
        node_transactions n l]
    by (simp add: ledger_1_def ledger_0_def ledger_def poll_simps invoice_1_def)
qed

lemma poll_full_history:
  "checkForPayment (node (Rpc_result [coin ''a'' 4, coin ''b'' 2])) ''inv-1'' ledger_1
     = (Resolved (invoice_1\<lparr>amount_paid := Some 4\<rparr>),
        ledger_1\<lparr>invoices := [invoice_1\<lparr>amount_paid := Some 6\<rparr>],
                 payments := [payment_of ''inv-1'' (coin ''a'' 4),
                              payment_of ''inv-1'' (coin ''b'' 2)]\<rparr>)"
proof -
  have n: "confirmed_total [coin ''a'' 4, coin ''b'' 2] \<noteq> 0"
    by (simp add: poll_simps)
  have l: "confirmed_total [coin ''a'' 4, coin ''b'' 2]
      < total_amount_due (invoice_1\<lparr>amount_paid := Some 4\<rparr>)"
    by (simp add: poll_simps invoice_1_due)
  show ?thesis
    unfolding checkForPayment_below_due[OF ledger_1_invoice invoice_1_unpaid(2)
        node_transactions n l]
    by (simp add: ledger_1_def ledger_0_def ledger_def poll_simps invoice_1_def)
qed

lemma paid_total_simps:
  "paid_total g [] = 0"
  "paid_total g (payment_of g' t # ps) = (if g' = g then to_xch (tx_amount t) else 0) + paid_total g ps"
  by (simp_all add: paid_total_def payment_of_def)

text \<open>
  C1 fails as stated: the node first lists the transaction \<open>a\<close> of 4 XCH and in the next
  poll only the transaction \<open>b\<close> of 2 XCH. Both rows are recorded, 6 XCH in all, and
  \<open>amount_paid\<close> is 2.
\<close>

theorem amount_paid_not_paid_total_counterexample:
  "map amount_paid (invoices (polls [node (Rpc_result [coin ''a'' 4]),
       node (Rpc_result [coin ''b'' 2])] ''inv-1'' ledger_0)) = [Some 2]
   \<and> paid_total ''inv-1'' (payments (polls [node (Rpc_result [coin ''a'' 4]),
       node (Rpc_result [coin ''b'' 2])] ''inv-1'' ledger_0)) = 6"
  by (simp add: first_poll poll_other_transaction paid_total_simps to_xch_coin)

lemma empty_poll:
  "snd (checkForPayment (node (Rpc_result [])) ''inv-1'' ledger_0) = ledger_0"
  unfolding checkForPayment_zero_total[OF ledger_0_invoice invoice_1_unpaid(1)
      node_transactions confirmed_total_simps(1)]
  by (simp add: insertTransactionsAndCalculateSum_def)

text \<open>
  C5. A list without transactions is a valid answer of the node, and paying less than is
  due is no error. For a total that is not zero the function behaves so
  (\<open>checkForPayment_underpayment\<close>). For the empty list it does not: on the unpaid invoice of
  \<open>ledger_0\<close> the total is zero, the test of the total takes it for a failure of the node,
  and the promise is rejected; the state is as before.
\<close>

theorem checkForPayment_empty_list_rejected:
  "checkForPayment (node (Rpc_result [])) ''inv-1'' ledger_0
     = (Rejected Balance_unavailable, ledger_0)"
  unfolding checkForPayment_zero_total[OF ledger_0_invoice invoice_1_unpaid(1)
      node_transactions confirmed_total_simps(1)]
  by (simp add: insertTransactionsAndCalculateSum_def)

lemma spec_newly_ingested_coin:
  "spec_newly_ingested (coin c a # ts) g ps
     = (if (g, c) \<in> set (map payment_key ps) then spec_newly_ingested ts g ps
        else coin c a # spec_newly_ingested ts g (ps @ [payment_of g (coin c a)]))"
  by (simp add: coin_sel payment_key_of_coin)

text \<open>
  C4 fails as stated. In \<open>ledger_1\<close>, reached by a poll that saw \<open>a\<close>, a poll that sees
  \<open>a\<close> again ingests nothing new, yet the amount it computes is the 4 XCH of \<open>a\<close>; and a
  poll that sees only \<open>b\<close> of 2 XCH leaves \<open>amount_paid\<close> at 2, where an increment of the
  stored 4 by the newly ingested 2 gives 6.
\<close>

theorem amount_applied_not_incremental_counterexample:
  "ledger_1 = polls [node (Rpc_result [coin ''a'' 4])] ''inv-1'' ledger_0
   \<and> fst (insertTransactionsAndCalculateSum [coin ''a'' 4] ''inv-1'' (payments ledger_1)) = 4
   \<and> spec_amount_applied [coin ''a'' 4] ''inv-1'' (payments ledger_1) = 0
   \<and> map amount_paid (invoices ledger_1) = [Some 4]
   \<and> spec_incremented (Some 4)
        (spec_amount_applied [coin ''b'' 2] ''inv-1'' (payments ledger_1)) = Some 6
   \<and> map amount_paid (invoices (snd (checkForPayment (node (Rpc_result [coin ''b'' 2]))
        ''inv-1'' ledger_1))) = [Some 2]"
proof -
  have p: "payments ledger_1 = [payment_of ''inv-1'' (coin ''a'' 4)]"
    and i: "map amount_paid (invoices ledger_1) = [Some 4]"
    by (simp_all add: ledger_1_def)
  have a: "spec_amount_applied [coin ''a'' 4] ''inv-1'' (payments ledger_1) = 0"
    unfolding p by (simp add: spec_amount_applied_def spec_newly_ingested_coin payment_key_of_coin)
  have b: "spec_amount_applied [coin ''b'' 2] ''inv-1'' (payments ledger_1) = 2"
    unfolding p
    by (simp add: spec_amount_applied_def spec_newly_ingested_coin payment_key_of_coin
        to_xch_coin coin_sel)
  have c: "fst (insertTransactionsAndCalculateSum [coin ''a'' 4] ''inv-1'' (payments ledger_1)) = 4"
    by (simp add: insertTransactionsAndCalculateSum_fst confirmed_total_simps coin_sel to_xch_coin)
  show ?thesis
    by (simp add: a b c i first_poll poll_other_transaction spec_incremented_def)
qed

text \<open>Witness for C4: in \<open>ledger_1\<close> the node lists \<open>a\<close> again; 4 is stored, not 8.\<close>

theorem checkForPayment_overwrites_amount_paid_witness:
  "fst (insertTransactionsAndCalculateSum [coin ''a'' 4] ''inv-1'' (payments ledger_1)) = 4
   \<and> map amount_paid (invoices ledger_1) = [Some 4]
   \<and> amount_paid (hd (invoices (snd (checkForPayment
         (node (Rpc_result [coin ''a'' 4])) ''inv-1'' ledger_1)))) = Some 4"
proof -
  let ?ts = "[coin ''a'' 4]"
  let ?st = "snd (checkForPayment (node (Rpc_result ?ts)) ''inv-1'' ledger_1)"
  have c: "confirmed_total ?ts = 4"
    by (simp add: poll_simps)
  then have n: "confirmed_total ?ts \<noteq> 0"
    by simp
  note w = checkForPayment_overwrites_amount_paid[OF ledger_1_invoice invoice_1_unpaid(2)
      node_transactions n]
  have h: "hd (invoices ?st) \<in> set (invoices ?st)" "guid (hd (invoices ?st)) = ''inv-1''"
    unfolding repeated_poll by (simp_all add: ledger_1_def invoice_1_def)
  have i: "map amount_paid (invoices ledger_1) = [Some 4]"
    by (simp add: ledger_1_def)
  show ?thesis
    using w h i unfolding c by simp
qed

text \<open>Witness for C2: two polls that both see \<open>a\<close>.\<close>

theorem checkForPayment_same_transaction_twice_witness:
  "length (rows_of_key ''inv-1'' ''a'' (payments (polls
       [node (Rpc_result [coin ''a'' 4]), node (Rpc_result [coin ''a'' 4])] ''inv-1'' ledger_0))) = 1
   \<and> payments (polls
       [node (Rpc_result [coin ''a'' 4]), node (Rpc_result [coin ''a'' 4])] ''inv-1'' ledger_0)
     = [payment_of ''inv-1'' (coin ''a'' 4)]"
proof -
  have d: "distinct (map payment_key (payments ledger_0))"
    by (simp add: ledger_0_def ledger_def)
  have t: "coin ''a'' 4 \<in> set [coin ''a'' 4]"
    by simp
  note w = checkForPayment_same_transaction_twice[OF d ledger_0_invoice invoice_1_unpaid(1)
      node_transactions t coin_sel(1), of "node (Rpc_result [coin ''a'' 4])"]
  have "payments (polls [node (Rpc_result [coin ''a'' 4]), node (Rpc_result [coin ''a'' 4])]
      ''inv-1'' ledger_0) = [payment_of ''inv-1'' (coin ''a'' 4)]"
    unfolding polls.simps first_poll snd_conv repeated_poll by (simp add: ledger_1_def)
  then show ?thesis
    using w by (simp add: coin_sel)
qed

lemma poll_without_list:
  "snd (checkForPayment (node Rpc_no_result) ''inv-1'' ledger_1) = ledger_1"
  by (rule checkForPayment_unchanged)
     (simp add: ledger_1_invoice node_transactions)

text \<open>
  Witness for C1: four polls of the invoice of \<open>ledger_0\<close>. The node lists nothing, then
  \<open>a\<close>, then gives no list, then lists \<open>a\<close> and \<open>b\<close>: 6 XCH are stored and recorded.
\<close>

theorem amount_paid_is_paid_total_after_any_calls_witness:
  "map amount_paid_value (invoices (reconciliations
       [(node (Rpc_result []), ''inv-1''), (node (Rpc_result [coin ''a'' 4]), ''inv-1''),
        (node Rpc_no_result, ''inv-1''),
        (node (Rpc_result [coin ''a'' 4, coin ''b'' 2]), ''inv-1'')] ledger_0)) = [6]
   \<and> paid_total ''inv-1'' (payments (reconciliations
       [(node (Rpc_result []), ''inv-1''), (node (Rpc_result [coin ''a'' 4]), ''inv-1''),
        (node Rpc_no_result, ''inv-1''),
        (node (Rpc_result [coin ''a'' 4, coin ''b'' 2]), ''inv-1'')] ledger_0)) = 6"
proof -
  let ?cs = "[(node (Rpc_result []), ''inv-1''), (node (Rpc_result [coin ''a'' 4]), ''inv-1''),
        (node Rpc_no_result, ''inv-1''),
        (node (Rpc_result [coin ''a'' 4, coin ''b'' 2]), ''inv-1'')]"
  have p0: "payments ledger_0 = []"
    by (simp add: ledger_0_def ledger_def)
  have p1: "payments ledger_1 = [payment_of ''inv-1'' (coin ''a'' 4)]"
    by (simp add: ledger_1_def)
  have d: "distinct (map payment_key (payments ledger_0))"
    by (simp add: p0)
  have ok: "amount_paid_ok ''inv-1'' ledger_0"
    unfolding amount_paid_ok_def p0
    by (simp add: ledger_0_def ledger_def invoice_1_def amount_paid_value_def paid_total_simps)
  have c0: "complete_history (node (Rpc_result [])) ''inv-1'' ledger_0"
    unfolding complete_history_def ledger_0_invoice p0
    by (simp add: invoice_1_unpaid node_transactions)
  have c1: "complete_history (node (Rpc_result [coin ''a'' 4])) ''inv-1'' ledger_0"
    unfolding complete_history_def ledger_0_invoice p0
    by (simp add: invoice_1_unpaid node_transactions coin_sel)
  have c2: "complete_history (node Rpc_no_result) ''inv-1'' ledger_1"
    unfolding complete_history_def ledger_1_invoice
    by (simp add: invoice_1_unpaid node_transactions)
  have c3: "complete_history (node (Rpc_result [coin ''a'' 4, coin ''b'' 2])) ''inv-1'' ledger_1"
    unfolding complete_history_def ledger_1_invoice p1
    by (simp add: invoice_1_unpaid node_transactions coin_sel payment_of_def)
  have c: "complete_histories ?cs ledger_0"
    unfolding complete_histories.simps empty_poll first_poll snd_conv poll_without_list
    using c0 c1 c2 c3 by simp
  have run: "reconciliations ?cs ledger_0
      = ledger_1\<lparr>invoices := [invoice_1\<lparr>amount_paid := Some 6\<rparr>],
                 payments := [payment_of ''inv-1'' (coin ''a'' 4),
                              payment_of ''inv-1'' (coin ''b'' 2)]\<rparr>"
    unfolding reconciliations.simps empty_poll first_poll snd_conv poll_without_list
      poll_full_history
    by simp
  note w = amount_paid_is_paid_total_after_any_calls[OF d ok c, unfolded run]
  have t: "paid_total ''inv-1'' [payment_of ''inv-1'' (coin ''a'' 4),
      payment_of ''inv-1'' (coin ''b'' 2)] = 6"
    by (simp add: paid_total_simps to_xch_coin)
  have "amount_paid_value (invoice_1\<lparr>amount_paid := Some 6\<rparr>) = 6"
    using w by (simp add: invoice_1_def t)
  then show ?thesis
    unfolding run by (simp add: t)
qed

subsection \<open>Settlement happens at most once\<close>

lemma confirmPayment_rpc_sent:
  "length (rpc_sent (snd (confirmPayment e g st))) \<le> length (rpc_sent st) + 1"
  by (simp add: confirmPayment_def Let_def split: list.splits)

lemma filter_guid_map:
  assumes "\<And>x. guid (f x) = guid x"
  shows "filter (\<lambda>i. guid i = g) (map f xs) = map f (filter (\<lambda>i. guid i = g) xs)"
  by (induction xs) (simp_all add: assms)

lemma checkForPayment_settles_or_sends_nothing:
  "rpc_sent (snd (checkForPayment e g st)) = rpc_sent st
   \<or> (length (rpc_sent (snd (checkForPayment e g st))) \<le> length (rpc_sent st) + 1
      \<and> (\<exists>iv rest. filter (\<lambda>i. guid i = g) (invoices (snd (checkForPayment e g st))) = iv # rest
            \<and> inv_status iv = Paid))"
proof (cases "filter (\<lambda>i. guid i = g) (invoices st)")
  case Nil
  then show ?thesis by (simp add: checkForPayment_unchanged)
next
  case (Cons iv rest)
  show ?thesis
  proof (cases "inv_status iv")
    case Paid
    with Cons show ?thesis by (simp add: checkForPayment_unchanged)
  next
    case Unpaid
    show ?thesis
    proof (cases "get_transactions e (xch_payment_address iv)")
      case (Rpc_result ts)
      show ?thesis
      proof (cases "confirmed_total ts = 0")
        case True
        show ?thesis
          unfolding checkForPayment_zero_total[OF Cons Unpaid Rpc_result True] by simp
      next
        case False
        show ?thesis
        proof (cases "total_amount_due iv \<le> confirmed_total ts")
          case below: False
          then have "confirmed_total ts < total_amount_due iv" by simp
          from checkForPayment_below_due[OF Cons Unpaid Rpc_result False this]
          show ?thesis by simp
        next
          case True
          obtain ps where ins: "insertTransactionsAndCalculateSum ts g (payments st)
              = (confirmed_total ts, ps)"
            using insertTransactionsAndCalculateSum_fst[of ts g "payments st"]
            by (cases "insertTransactionsAndCalculateSum ts g (payments st)") simp
          define st2 where "st2 = st\<lparr>payments := ps,
              invoices := map (set_amount_paid g (confirmed_total ts)) (invoices st)\<rparr>"
          have s: "snd (checkForPayment e g st) = snd (confirmPayment e g st2)"
            using Cons Unpaid Rpc_result False True ins
            by (cases "confirmPayment e g st2"; cases "fst (confirmPayment e g st2)")
               (auto simp: checkForPayment_def Let_def st2_def split: promise.splits)
          have r: "rpc_sent st2 = rpc_sent st"
            by (simp add: st2_def)
          have "iv \<in> set (filter (\<lambda>i. guid i = g) (invoices st))"
            unfolding Cons by simp
          then have giv: "guid iv = g"
            by simp
          have "filter (\<lambda>i. guid i = g) (invoices (snd (confirmPayment e g st2)))
              = map (mark_paid g) (map (set_amount_paid g (confirmed_total ts)) (iv # rest))"
            unfolding confirmPayment_invoices
            by (simp add: st2_def filter_guid_map mark_paid_guid set_amount_paid_guid
                Cons[symmetric])
          then have "\<exists>iv' rest'. filter (\<lambda>i. guid i = g) (invoices (snd (confirmPayment e g st2)))
                = iv' # rest' \<and> inv_status iv' = Paid"
            using giv by (simp add: mark_paid_def set_amount_paid_guid)
          then show ?thesis
            unfolding s using confirmPayment_rpc_sent[of e g st2] r by simp
        qed
      qed
    qed (use Cons in \<open>simp_all add: checkForPayment_unchanged\<close>)
  qed
qed

lemma polls_rpc_sent:
  "length (rpc_sent (polls es g st)) \<le> length (rpc_sent st) + 1"
proof (induction es arbitrary: st)
  case Nil
  then show ?case by simp
next
  case (Cons e es)
  let ?st = "snd (checkForPayment e g st)"
  consider (quiet) "rpc_sent ?st = rpc_sent st"
    | (settled) iv rest where "length (rpc_sent ?st) \<le> length (rpc_sent st) + 1"
        "filter (\<lambda>i. guid i = g) (invoices ?st) = iv # rest" "inv_status iv = Paid"
    using checkForPayment_settles_or_sends_nothing[of e g st] by blast
  then show ?case
  proof cases
    case quiet
    then show ?thesis using Cons.IH[of ?st] by simp
  next
    case settled
    have "polls es g ?st = ?st"
      using settled(2,3) by (rule polls_paid_fixed)
    then show ?thesis using settled(1) by simp
  qed
qed

text \<open>
  C3. When the invoice is already \<open>Paid\<close>, \<open>checkForPayment\<close> resolves with the invoice as
  loaded and leaves the whole state as it was: no payment row is inserted, no
  subscription is activated, no activation command is sent. The same holds for any further
  sequence of polls. \<open>confirmPayment\<close>, in whatever state it runs, leaves every invoice of
  that guid \<open>Paid\<close>; and over any sequence of polls of an invoice, from any state, at most
  one activation command is sent: the settlement is performed at most once.
\<close>

theorem checkForPayment_paid_noop:
  assumes "filter (\<lambda>i. guid i = g) (invoices st) = iv # rest"
    and "inv_status iv = Paid"
  shows "checkForPayment e g st = (Resolved iv, st) \<and> polls es g st = st
     \<and> (\<forall>i\<in>set (invoices (snd (confirmPayment e' g st'))). guid i = g \<longrightarrow> inv_status i = Paid)
     \<and> length (rpc_sent (polls es' g st')) \<le> length (rpc_sent st') + 1"
  using assms polls_paid_fixed[OF assms] confirmPayment_marks_paid[of _ e' g st']
    polls_rpc_sent[of es' g st']
  by (simp add: checkForPayment_def)

lemma settling_poll:
  "rpc_sent (snd (checkForPayment (node (Rpc_result [coin ''a'' 10])) ''inv-1'' ledger_0))
     = [(''CREATE_STORE'', 1, [(''userId'', ''7'')])]
   \<and> map inv_status (invoices (snd (checkForPayment (node (Rpc_result [coin ''a'' 10]))
        ''inv-1'' ledger_0))) = [Paid]
   \<and> map guid (invoices (snd (checkForPayment (node (Rpc_result [coin ''a'' 10]))
        ''inv-1'' ledger_0))) = [''inv-1'']
   \<and> map sub_status (subscriptions (snd (checkForPayment (node (Rpc_result [coin ''a'' 10]))
        ''inv-1'' ledger_0))) = [Active]"
  by (simp add: checkForPayment_def poll_simps confirmPayment_def subscriptions_of_invoice_def
      mark_paid_def mark_active_def Let_def ledger_0_def ledger_def invoice_1_def sub_1_def
      node_def)

text \<open>
  Witness for C3: a paid invoice is polled twice; and on \<open>ledger_0\<close> two polls that both
  see the full 10 XCH send one command.
\<close>

theorem checkForPayment_paid_noop_witness:
  "filter (\<lambda>i. guid i = ''inv-1'')
     (invoices (ledger (sub_1 Active new_year_2024) [invoice_1\<lparr>inv_status := Paid\<rparr>]))
     = [invoice_1\<lparr>inv_status := Paid\<rparr>]
   \<and> inv_status (invoice_1\<lparr>inv_status := Paid\<rparr>) = Paid
   \<and> checkForPayment (node (Rpc_result [coin ''a'' 10])) ''inv-1''
        (ledger (sub_1 Active new_year_2024) [invoice_1\<lparr>inv_status := Paid\<rparr>])
      = (Resolved (invoice_1\<lparr>inv_status := Paid\<rparr>),
         ledger (sub_1 Active new_year_2024) [invoice_1\<lparr>inv_status := Paid\<rparr>])
   \<and> polls [node (Rpc_result [coin ''a'' 10]), node (Rpc_result [coin ''b'' 5])] ''inv-1''
        (ledger (sub_1 Active new_year_2024) [invoice_1\<lparr>inv_status := Paid\<rparr>])
      = ledger (sub_1 Active new_year_2024) [invoice_1\<lparr>inv_status := Paid\<rparr>]
   \<and> rpc_sent ledger_0 = []
   \<and> rpc_sent (polls [node (Rpc_result [coin ''a'' 10]), node (Rpc_result [coin ''a'' 10])]
        ''inv-1'' ledger_0) = [(''CREATE_STORE'', 1, [(''userId'', ''7'')])]"
proof -
  let ?e = "node (Rpc_result [coin ''a'' 10])"
  let ?st = "snd (checkForPayment ?e ''inv-1'' ledger_0)"
  have h: "filter (\<lambda>i. guid i = ''inv-1'')
      (invoices (ledger (sub_1 Active new_year_2024) [invoice_1\<lparr>inv_status := Paid\<rparr>]))
      = invoice_1\<lparr>inv_status := Paid\<rparr> # []"
    by (simp add: ledger_def invoice_1_def)
  have p: "inv_status (invoice_1\<lparr>inv_status := Paid\<rparr>) = Paid"
    by simp
  note w = checkForPayment_paid_noop[OF h p]
  obtain x where x: "invoices ?st = [x]" "guid x = ''inv-1''" "inv_status x = Paid"
    using settling_poll by (auto simp: map_eq_Cons_conv)
  then have f: "filter (\<lambda>i. guid i = ''inv-1'') (invoices ?st) = x # []"
    by simp
  have "polls [?e] ''inv-1'' ?st = ?st"
    using f x(3) by (rule polls_paid_fixed)
  then have twice: "polls [?e, ?e] ''inv-1'' ledger_0 = ?st"
    by simp
  have r: "rpc_sent ?st = [(''CREATE_STORE'', 1, [(''userId'', ''7'')])]"
    using settling_poll by blast
  have z: "rpc_sent ledger_0 = []"
    by (simp add: ledger_0_def ledger_def)
  show ?thesis
    unfolding twice r using h p z conjunct1[OF w] conjunct1[OF conjunct2[OF w]] by simp
qed

subsection \<open>Notification failures and lost exceptions\<close>

lemma grace_emails_subscriptions: "subscriptions (grace_emails e rows st) = subscriptions st"
  by (induction rows arbitrary: st) simp_all

lemma mark_grace_Nil: "mark_grace [] s = s"
  by (simp add: mark_grace_def)

lemma setSubscriptionsToGracePeriod_resolves:
  "\<exists>n st'. setSubscriptionsToGracePeriod e st = (Resolved n, st')
     \<and> subscriptions st'
        = map (mark_grace (map (\<lambda>row. sub_id (fst row)) (expired_today e st))) (subscriptions st)"
proof (cases "expired_today e st = []")
  case True
  have "mark_grace [] = (\<lambda>s. s)"
    by (simp add: fun_eq_iff mark_grace_Nil)
  then have "map (mark_grace []) (subscriptions st) = subscriptions st"
    by simp
  then show ?thesis
    using True by (simp add: setSubscriptionsToGracePeriod_def)
next
  case False
  then show ?thesis
    by (simp add: setSubscriptionsToGracePeriod_def Let_def grace_emails_subscriptions)
qed

lemma createInvoice_email_fails:
  assumes "new_payment_address e = Rpc_result a" and "a \<noteq> []"
    and "getUserBy_id userId st = Some u"
    and "sendEmail_ok e (email u) = False"
  shows "createInvoice e userId sid (Some p) st =
     (Rejected Email_failed,
      st\<lparr>invoices := invoices st @
           [\<lparr>guid = uuidv4 e, subscription_id = sid, issue_date = now e,
             due_date = setFullYear (year (now e) + 1) (now e),
             total_amount_due = cost p, amount_paid = None,
             xch_payment_address = a, inv_status = Unpaid\<rparr>]\<rparr>)"
  using assms by (simp add: createInvoice_def Let_def getUserBy_id_def)

text \<open>
  C6 (amended). In \<open>createInvoice\<close>, when the payment address was obtained, the user is
  found and sending the e-mail fails, the promise is rejected with that failure, and the
  invoice row inserted before stays in the table: the failure reaches the caller, the
  insert is not rolled back. In \<open>setSubscriptionsToGracePeriod\<close> a failing e-mail is
  swallowed: in every environment the call resolves and the bulk update stands.
\<close>

theorem createInvoice_email_failure_propagates:
  assumes "new_payment_address e = Rpc_result a" and "a \<noteq> []"
    and "getUserBy_id userId st = Some u"
    and "sendEmail_ok e (email u) = False"
  shows "createInvoice e userId sid (Some p) st =
     (Rejected Email_failed,
      st\<lparr>invoices := invoices st @
           [\<lparr>guid = uuidv4 e, subscription_id = sid, issue_date = now e,
             due_date = setFullYear (year (now e) + 1) (now e),
             total_amount_due = cost p, amount_paid = None,
             xch_payment_address = a, inv_status = Unpaid\<rparr>]\<rparr>)
   \<and> (\<exists>n st'. setSubscriptionsToGracePeriod e st = (Resolved n, st')
        \<and> subscriptions st'
           = map (mark_grace (map (\<lambda>row. sub_id (fst row)) (expired_today e st)))
               (subscriptions st))"
  using createInvoice_email_fails[OF assms] setSubscriptionsToGracePeriod_resolves
  by simp

lemma mail_down_sel:
  "new_payment_address mail_down = Rpc_result ''xch1new''"
  "sendEmail_ok mail_down a = False"
  "uuidv4 mail_down = ''inv-2''"
  "now mail_down = new_year_2024"
  by (simp_all add: mail_down_def node_def)

lemma alice_found: "getUserBy_id 7 (ledger s is) = Some alice"
  by (simp add: getUserBy_id_def ledger_def alice_def)

text \<open>
  C6 fails as stated: with the e-mail service down, \<open>createInvoice\<close> inserts the invoice
  \<open>inv-2\<close> and then rejects with the failure of the e-mail.
\<close>

theorem createInvoice_email_failure_counterexample:
  "fst (createInvoice mail_down 7 (Some 1) (Some \<lparr>cost = 10\<rparr>) ledger_0) = Rejected Email_failed
   \<and> map guid (invoices (snd (createInvoice mail_down 7 (Some 1) (Some \<lparr>cost = 10\<rparr>) ledger_0)))
     = [''inv-1'', ''inv-2'']"
proof -
  have a: "''xch1new'' \<noteq> []" by simp
  have u: "getUserBy_id 7 ledger_0 = Some alice"
    unfolding ledger_0_def by (rule alice_found)
  show ?thesis
    unfolding createInvoice_email_fails[OF mail_down_sel(1) a u mail_down_sel(2)]
    by (simp add: ledger_0_def ledger_def invoice_1_def mail_down_sel)
qed

text \<open>Witness for C6, on a ledger whose subscription ends today.\<close>

theorem createInvoice_email_failure_propagates_witness:
  "createInvoice mail_down 7 (Some 1) (Some \<lparr>cost = 10\<rparr>) ledger_ending
     = (Rejected Email_failed,
        ledger_ending\<lparr>invoices := invoices ledger_ending @
           [\<lparr>guid = ''inv-2'', subscription_id = Some 1, issue_date = new_year_2024,
             due_date = \<lparr>year = 2025, month = 0, day = 1, msec = 0\<rparr>,
             total_amount_due = 10, amount_paid = None,
             xch_payment_address = ''xch1new'', inv_status = Unpaid\<rparr>]\<rparr>)
   \<and> fst (setSubscriptionsToGracePeriod mail_down ledger_ending) = Resolved 1
   \<and> map sub_status (subscriptions (snd (setSubscriptionsToGracePeriod mail_down ledger_ending)))
     = [Grace_period]
   \<and> outbox (snd (setSubscriptionsToGracePeriod mail_down ledger_ending)) = []"
proof -
  have a: "''xch1new'' \<noteq> []" by simp
  have u: "getUserBy_id 7 ledger_ending = Some alice"
    unfolding ledger_ending_def by (rule alice_found)
  note w = createInvoice_email_failure_propagates[OF mail_down_sel(1) a u mail_down_sel(2),
      of "Some 1" "\<lparr>cost = 10\<rparr>"]
  have d: "setFullYear (year new_year_2024 + 1) new_year_2024
      = \<lparr>year = 2025, month = 0, day = 1, msec = 0\<rparr>"
    by (simp add: setFullYear_def new_year_2024_def)
  have x: "expired_today mail_down ledger_ending = [(sub_1 Active new_year_2024, alice)]"
    by (simp add: expired_today_def ledger_ending_def ledger_def mail_down_sel sub_1_def
        alice_def new_year_2024_def)
  have g: "setSubscriptionsToGracePeriod mail_down ledger_ending
      = (Resolved 1, ledger_ending\<lparr>subscriptions := [sub_1 Grace_period new_year_2024]\<rparr>)"
    unfolding setSubscriptionsToGracePeriod_def x
    by (simp add: Let_def mail_down_sel mark_grace_def ledger_ending_def ledger_def sub_1_def
        alice_def)
  have o: "outbox ledger_ending = []" by (simp add: ledger_ending_def ledger_def)
  have c: "createInvoice mail_down 7 (Some 1) (Some \<lparr>cost = 10\<rparr>) ledger_ending
     = (Rejected Email_failed,
        ledger_ending\<lparr>invoices := invoices ledger_ending @
           [\<lparr>guid = ''inv-2'', subscription_id = Some 1, issue_date = new_year_2024,
             due_date = \<lparr>year = 2025, month = 0, day = 1, msec = 0\<rparr>,
             total_amount_due = 10, amount_paid = None,
             xch_payment_address = ''xch1new'', inv_status = Unpaid\<rparr>]\<rparr>)"
    using conjunct1[OF w] by (simp add: mail_down_sel d)
  show ?thesis
    unfolding g using c by (simp add: o sub_1_def)
qed

text \<open>
  C7. When the node returns no payment address, no invoice row is created, but the
  \<^verbatim>\<open>throw\<close> stands outside the \<^verbatim>\<open>try\<close> in the async executor, so the promise of
  \<open>createInvoice\<close> is never rejected: the caller is not given the error.
\<close>

theorem createInvoice_no_address_unsettled:
  "createInvoice no_address 7 (Some 1) (Some \<lparr>cost = 10\<rparr>) ledger_0
     = (Unsettled Address_unavailable, ledger_0)"
  by (simp add: createInvoice_def no_address_def node_def Let_def)

lemma add_days_15: "add_days 15 new_year_2024 = \<lparr>year = 2024, month = 0, day = 16, msec = 0\<rparr>"
  by (simp add: eval_nat_numeral next_day_def days_in_month_def new_year_2024_def)

text \<open>
  C9. With one active subscription that ends within the next 15 days, the scan selects
  it, and the callback calls \<open>createInvoice\<close> with the subscription id alone: reading the
  cost of the missing product throws in the async executor, no invoice is created, no
  e-mail is sent, the state is as before and the promise of the batch never settles.
\<close>

theorem checkSubscriptionsForExpiration_unsettled:
  "expiring (node (Rpc_result [])) ledger_expiring
     = [(sub_1 Active \<lparr>year = 2024, month = 0, day = 10, msec = 0\<rparr>, alice)]
   \<and> checkSubscriptionsForExpiration (node (Rpc_result [])) ledger_expiring
     = (Unsettled Type_error, ledger_expiring)"
proof -
  have n: "now (node (Rpc_result [])) = new_year_2024"
    by (simp add: node_def)
  have x: "expiring (node (Rpc_result [])) ledger_expiring
     = [(sub_1 Active \<lparr>year = 2024, month = 0, day = 10, msec = 0\<rparr>, alice)]"
    unfolding expiring_def n add_days_15
    by (simp add: ledger_expiring_def ledger_def sub_1_def alice_def date_le_def new_year_2024_def)
  show ?thesis
    unfolding checkSubscriptionsForExpiration_def x
    by (simp add: expiration_callback_def createInvoice_def Let_def)
qed

end
